theory Spec2Isabelle
  imports Main "HOL-Library.AList"
begin

section \<open>Domain types (types/domain.ts, types/enums.ts)\<close>

text \<open>
  Modelled from the spec: the enum declarations of types/enums.ts are not part of the
  sources at hand. The members below are the ones the spec lists and the code names
  (\<^verbatim>\<open>PatientType.EMERGENCY\<close>, \<^verbatim>\<open>TokenStatus.PENDING\<close>, \<^verbatim>\<open>SlotStatus.CLOSED\<close>, ...).
\<close>

datatype patientType = EMERGENCY | PAID_PRIORITY | FOLLOW_UP | ONLINE_BOOKING | WALK_IN

datatype tokenStatus = PENDING | ALLOCATED | WAITLISTED | COMPLETED | CANCELLED | NO_SHOW

datatype slotStatus = AVAILABLE | FULL | OVERFLOW | CLOSED

text \<open>
  The interfaces of types/domain.ts. Fields that two interfaces share (\<^verbatim>\<open>id\<close>,
  \<^verbatim>\<open>doctorId\<close>, \<^verbatim>\<open>status\<close>, \<^verbatim>\<open>name\<close>) carry the interface as a prefix. A \<^verbatim>\<open>Date\<close> is
  its \<^verbatim>\<open>getTime()\<close> value, an optional field is an option.
\<close>

record doctor =
  doctor_id :: string
  doctor_name :: string
  specialization :: string
  availableSlots :: "string list"

record timeSlot =
  slot_id :: string
  slot_doctorId :: string
  startTime :: string
  endTime :: string
  maxCapacity :: nat
  currentLoad :: nat
  slot_status :: slotStatus
  allocatedTokens :: "string list"
  waitlist :: "string list"

record token =
  token_id :: string
  patientName :: string
  patientType :: patientType
  priority :: int
  token_doctorId :: string
  token_slotId :: "string option"
  token_status :: tokenStatus
  createdAt :: int
  allocatedAt :: "int option"
  bumpCount :: nat

record slotInfo =
  info_slotId :: string
  info_currentLoad :: nat
  info_maxCapacity :: nat

record allocationResult =
  success :: bool
  result_token :: "token option"
  message :: string
  result_slotInfo :: "slotInfo option"

text \<open>Every \<^verbatim>\<open>throw new Error(...)\<close> of the engine is one of these.\<close>

datatype error = TokenNotFound string | SlotNotFound string | DoctorNotFound string


section \<open>Priority rules (core/priorityRules.ts)\<close>

fun getPriorityScore :: "patientType \<Rightarrow> int" where
  "getPriorityScore EMERGENCY = 100"
| "getPriorityScore PAID_PRIORITY = 80"
| "getPriorityScore FOLLOW_UP = 60"
| "getPriorityScore ONLINE_BOOKING = 40"
| "getPriorityScore WALK_IN = 20"

definition canBump :: "patientType \<Rightarrow> patientType \<Rightarrow> bool" where
  "canBump bumperType bumpedType =
     (if bumperType = EMERGENCY then True
      else if bumperType = PAID_PRIORITY then bumpedType = WALK_IN
      else False)"

definition compareTokenPriority :: "int \<Rightarrow> int \<Rightarrow> int \<Rightarrow> int \<Rightarrow> int" where
  "compareTokenPriority aPriority aTimestamp bPriority bTimestamp =
     (if aPriority \<noteq> bPriority then bPriority - aPriority
      else aTimestamp - bTimestamp)"

definition MAX_BUMP_COUNT :: nat where
  "MAX_BUMP_COUNT = 2"

definition canBeBumped :: "nat \<Rightarrow> bool" where
  "canBeBumped currentBumpCount = (currentBumpCount < MAX_BUMP_COUNT)"


section \<open>JavaScript built-ins the engine relies on\<close>

text \<open>
  \<^verbatim>\<open>Array.prototype.sort\<close> with a comparator is stable: an element moves in front of
  another one only when the comparator says it is strictly smaller. Insertion from the
  right gives that order.
\<close>

fun insertBy :: "('a \<Rightarrow> 'a \<Rightarrow> int) \<Rightarrow> 'a \<Rightarrow> 'a list \<Rightarrow> 'a list" where
  "insertBy cmp x [] = [x]"
| "insertBy cmp x (y # ys) = (if cmp x y \<le> 0 then x # y # ys else y # insertBy cmp x ys)"

fun sortBy :: "('a \<Rightarrow> 'a \<Rightarrow> int) \<Rightarrow> 'a list \<Rightarrow> 'a list" where
  "sortBy cmp [] = []"
| "sortBy cmp (x # xs) = insertBy cmp x (sortBy cmp xs)"

text \<open>A string is truthy when it is present and not empty (\<^verbatim>\<open>s ? a : b\<close>, \<^verbatim>\<open>if (s)\<close>).\<close>

fun truthy :: "string option \<Rightarrow> bool" where
  "truthy None = False"
| "truthy (Some s) = (s \<noteq> [])"

text \<open>A number inside a template literal: its decimal digits.\<close>

definition digitChar :: "nat \<Rightarrow> char" where
  "digitChar d = ''0123456789'' ! d"

fun showNat :: "nat \<Rightarrow> string" where
  "showNat n = (if n < 10 then [digitChar n] else showNat (n div 10) @ [digitChar (n mod 10)])"

declare showNat.simps [simp del]


section \<open>The in-memory store (store/memoryStore.ts)\<close>

text \<open>
  Each \<^verbatim>\<open>Map<string, T>\<close> is an association list in insertion order: \<^verbatim>\<open>Map.set\<close> on a
  key that is present keeps its place, on a new key appends, which is \<open>AList.update\<close>;
  \<^verbatim>\<open>Map.values()\<close> is \<open>map snd\<close>.
\<close>

record store =
  doctors :: "(string \<times> doctor) list"
  slots :: "(string \<times> timeSlot) list"
  tokens :: "(string \<times> token) list"

definition emptyStore :: store where
  "emptyStore = \<lparr>doctors = [], slots = [], tokens = []\<rparr>"

definition addDoctor :: "store \<Rightarrow> doctor \<Rightarrow> store" where
  "addDoctor st d = st\<lparr>doctors := AList.update (doctor_id d) d (doctors st)\<rparr>"

definition getDoctor :: "store \<Rightarrow> string \<Rightarrow> doctor option" where
  "getDoctor st k = map_of (doctors st) k"

definition addSlot :: "store \<Rightarrow> timeSlot \<Rightarrow> store" where
  "addSlot st slot = st\<lparr>slots := AList.update (slot_id slot) slot (slots st)\<rparr>"

definition getSlot :: "store \<Rightarrow> string \<Rightarrow> timeSlot option" where
  "getSlot st k = map_of (slots st) k"

text \<open>
  \<^verbatim>\<open>updateSlot(id, updates)\<close> stores the fresh object \<^verbatim>\<open>{ ...slot, ...updates }\<close>. The partial
  object \<^verbatim>\<open>updates\<close> is the function that overrides the fields it carries; a whole
  \<^verbatim>\<open>TimeSlot\<close> passed as \<^verbatim>\<open>updates\<close> overrides every field, so it is \<open>\<lambda>_. slot\<close>.
\<close>

definition updateSlot :: "store \<Rightarrow> string \<Rightarrow> (timeSlot \<Rightarrow> timeSlot) \<Rightarrow> store" where
  "updateSlot st k updates =
     (case map_of (slots st) k of
        None \<Rightarrow> st
      | Some slot \<Rightarrow> st\<lparr>slots := AList.update k (updates slot) (slots st)\<rparr>)"

text \<open>
  \<^verbatim>\<open>getSlot\<close> hands out the stored object itself, so an assignment to a field of that
  object (\<^verbatim>\<open>slot.currentLoad = ...\<close>, \<^verbatim>\<open>slot.allocatedTokens.push(...)\<close>) is seen by every
  later read of the store. \<open>mutateSlot\<close> writes the object as mutated so far back under
  its key; the caller keeps its own copy \<open>slot\<close>, which stands for the object the local
  variable refers to and does not follow the replacements \<open>updateSlot\<close> makes.
\<close>

definition mutateSlot :: "store \<Rightarrow> string \<Rightarrow> timeSlot \<Rightarrow> store" where
  "mutateSlot st k slot = st\<lparr>slots := AList.update k slot (slots st)\<rparr>"

definition getSlotsByDoctor :: "store \<Rightarrow> string \<Rightarrow> timeSlot list" where
  "getSlotsByDoctor st doctorId = filter (\<lambda>slot. slot_doctorId slot = doctorId) (map snd (slots st))"

definition addToken :: "store \<Rightarrow> token \<Rightarrow> store" where
  "addToken st t = st\<lparr>tokens := AList.update (token_id t) t (tokens st)\<rparr>"

definition getToken :: "store \<Rightarrow> string \<Rightarrow> token option" where
  "getToken st k = map_of (tokens st) k"

definition updateToken :: "store \<Rightarrow> string \<Rightarrow> (token \<Rightarrow> token) \<Rightarrow> store" where
  "updateToken st k updates =
     (case map_of (tokens st) k of
        None \<Rightarrow> st
      | Some t \<Rightarrow> st\<lparr>tokens := AList.update k (updates t) (tokens st)\<rparr>)"

definition mutateToken :: "store \<Rightarrow> string \<Rightarrow> token \<Rightarrow> store" where
  "mutateToken st k t = st\<lparr>tokens := AList.update k t (tokens st)\<rparr>"

text \<open>The slot literal of \<^verbatim>\<open>createSlotsForDoctor\<close> (store/seedData.ts).\<close>

definition newSlot :: "string \<Rightarrow> string \<Rightarrow> string \<Rightarrow> string \<Rightarrow> nat \<Rightarrow> timeSlot" where
  "newSlot slotId doctorId start finish cap =
     \<lparr>slot_id = slotId, slot_doctorId = doctorId, startTime = start, endTime = finish,
      maxCapacity = cap, currentLoad = 0, slot_status = AVAILABLE,
      allocatedTokens = [], waitlist = []\<rparr>"


section \<open>Slot manager (core/slotManager.ts)\<close>

definition hasCapacity :: "store \<Rightarrow> string \<Rightarrow> bool" where
  "hasCapacity st slotId =
     (case getSlot st slotId of
        None \<Rightarrow> False
      | Some slot \<Rightarrow> currentLoad slot < maxCapacity slot)"

definition updateSlotStatus :: "store \<Rightarrow> string \<Rightarrow> store" where
  "updateSlotStatus st slotId =
     (case getSlot st slotId of
        None \<Rightarrow> st
      | Some slot \<Rightarrow>
          let newStatus =
                (if currentLoad slot = 0 then AVAILABLE
                 else if currentLoad slot < maxCapacity slot then AVAILABLE
                 else if currentLoad slot = maxCapacity slot then FULL
                 else OVERFLOW)
          in updateSlot st slotId (\<lambda>s. s\<lparr>slot_status := newStatus\<rparr>))"

text \<open>
  \<^verbatim>\<open>addTokenToSlot\<close>: the local \<^verbatim>\<open>slot\<close> is the stored object; the push and the load are
  written into it in place. \<^verbatim>\<open>updateSlotStatus\<close> then stores a \<^emph>\<open>copy\<close> with the new status,
  and the closing \<^verbatim>\<open>store.updateSlot(slotId, slot)\<close> spreads the local object, whose status
  field nobody assigned, over that copy.
\<close>

definition addTokenToSlot :: "store \<Rightarrow> string \<Rightarrow> string \<Rightarrow> error + store" where
  "addTokenToSlot st slotId tokenId =
     (case getSlot st slotId of
        None \<Rightarrow> Inl (SlotNotFound slotId)
      | Some slot0 \<Rightarrow>
          let slot1 = slot0\<lparr>allocatedTokens := allocatedTokens slot0 @ [tokenId]\<rparr>;
              slot = slot1\<lparr>currentLoad := length (allocatedTokens slot1)\<rparr>;
              st1 = mutateSlot st slotId slot;
              st2 = updateSlotStatus st1 slotId
          in Inr (updateSlot st2 slotId (\<lambda>_. slot)))"

definition removeTokenFromSlot :: "store \<Rightarrow> string \<Rightarrow> string \<Rightarrow> store" where
  "removeTokenFromSlot st slotId tokenId =
     (case getSlot st slotId of
        None \<Rightarrow> st
      | Some slot0 \<Rightarrow>
          let slot1 = slot0\<lparr>allocatedTokens := filter (\<lambda>i. i \<noteq> tokenId) (allocatedTokens slot0)\<rparr>;
              slot = slot1\<lparr>currentLoad := length (allocatedTokens slot1)\<rparr>;
              st1 = mutateSlot st slotId slot;
              st2 = updateSlotStatus st1 slotId
          in updateSlot st2 slotId (\<lambda>_. slot))"

text \<open>
  \<^verbatim>\<open>sortWaitlist\<close> looks every id up, drops the unknown ones, sorts the tokens and assigns
  the ids back to the stored object.
\<close>

definition sortWaitlist :: "store \<Rightarrow> string \<Rightarrow> store" where
  "sortWaitlist st slotId =
     (case getSlot st slotId of
        None \<Rightarrow> st
      | Some slot0 \<Rightarrow>
          let waitlistTokens = List.map_filter (getToken st) (waitlist slot0);
              sorted = sortBy (\<lambda>a b. compareTokenPriority (priority a) (createdAt a)
                                                            (priority b) (createdAt b))
                         waitlistTokens;
              slot = slot0\<lparr>waitlist := map token_id sorted\<rparr>;
              st1 = mutateSlot st slotId slot
          in updateSlot st1 slotId (\<lambda>_. slot))"

text \<open>
  \<^verbatim>\<open>addToWaitlist\<close>: the object the local \<^verbatim>\<open>slot\<close> refers to is the one \<^verbatim>\<open>sortWaitlist\<close>
  assigns the sorted list to, so the closing \<^verbatim>\<open>updateSlot(slotId, slot)\<close> spreads the
  fields the store already holds.
\<close>

definition addToWaitlist :: "store \<Rightarrow> string \<Rightarrow> string \<Rightarrow> error + store" where
  "addToWaitlist st slotId tokenId =
     (case getSlot st slotId of
        None \<Rightarrow> Inl (SlotNotFound slotId)
      | Some slot0 \<Rightarrow>
          let slot1 = slot0\<lparr>waitlist := waitlist slot0 @ [tokenId]\<rparr>;
              st1 = mutateSlot st slotId slot1;
              st2 = sortWaitlist st1 slotId
          in (case getSlot st2 slotId of
                None \<Rightarrow> Inr st2
              | Some slot \<Rightarrow> Inr (updateSlot st2 slotId (\<lambda>_. slot))))"

definition removeFromWaitlist :: "store \<Rightarrow> string \<Rightarrow> string \<Rightarrow> store" where
  "removeFromWaitlist st slotId tokenId =
     (case getSlot st slotId of
        None \<Rightarrow> st
      | Some slot0 \<Rightarrow>
          let slot = slot0\<lparr>waitlist := filter (\<lambda>i. i \<noteq> tokenId) (waitlist slot0)\<rparr>;
              st1 = mutateSlot st slotId slot
          in updateSlot st1 slotId (\<lambda>_. slot))"

definition getNextFromWaitlist :: "store \<Rightarrow> string \<Rightarrow> token option" where
  "getNextFromWaitlist st slotId =
     (case getSlot st slotId of
        None \<Rightarrow> None
      | Some slot \<Rightarrow>
          (case waitlist slot of
             [] \<Rightarrow> None
           | nextTokenId # _ \<Rightarrow> getToken st nextTokenId))"

definition promoteFromWaitlist :: "store \<Rightarrow> string \<Rightarrow> int \<Rightarrow> error + (token option \<times> store)" where
  "promoteFromWaitlist st slotId now =
     (case getNextFromWaitlist st slotId of
        None \<Rightarrow> Inr (None, st)
      | Some nextToken \<Rightarrow>
          let st1 = removeFromWaitlist st slotId (token_id nextToken)
          in (case addTokenToSlot st1 slotId (token_id nextToken) of
                Inl e \<Rightarrow> Inl e
              | Inr st2 \<Rightarrow>
                  let st3 = updateToken st2 (token_id nextToken)
                              (\<lambda>t. t\<lparr>token_status := ALLOCATED, token_slotId := Some slotId,
                                     allocatedAt := Some now\<rparr>)
                  in Inr (getToken st3 (token_id nextToken), st3)))"

definition findBestAvailableSlot :: "store \<Rightarrow> string \<Rightarrow> timeSlot option" where
  "findBestAvailableSlot st doctorId =
     (let availableSlots =
            filter (\<lambda>slot. slot_status slot \<noteq> CLOSED \<and> currentLoad slot < maxCapacity slot)
              (getSlotsByDoctor st doctorId)
      in (case sortBy (\<lambda>a b. int (currentLoad a) - int (currentLoad b)) availableSlots of
            [] \<Rightarrow> None
          | best # _ \<Rightarrow> Some best))"


section \<open>Token allocator (core/tokenAllocator.ts)\<close>

text \<open>
  \<^verbatim>\<open>uuidv4()\<close> and \<^verbatim>\<open>new Date()\<close> are inputs of the model: \<open>newId\<close> is the identifier drawn
  for the token, \<open>now\<close> the clock reading. A result is \<open>Inl\<close> when the method throws.
\<close>

definition handleEmergencyAllocation ::
  "store \<Rightarrow> token \<Rightarrow> string \<Rightarrow> int \<Rightarrow> error + (allocationResult \<times> store)" where
  "handleEmergencyAllocation st tok slotId now =
     (case addTokenToSlot st slotId (token_id tok) of
        Inl e \<Rightarrow> Inl e
      | Inr st1 \<Rightarrow>
          let st2 = updateToken st1 (token_id tok)
                      (\<lambda>t. t\<lparr>token_status := ALLOCATED, token_slotId := Some slotId,
                             allocatedAt := Some now\<rparr>)
          in (case getSlot st2 slotId of
                None \<Rightarrow> Inl (SlotNotFound slotId)
              | Some slot \<Rightarrow>
                  Inr (\<lparr>success = True,
                        result_token = getToken st2 (token_id tok),
                        message = ''Emergency patient allocated (slot in overflow: ''
                                    @ showNat (currentLoad slot) @ ''/''
                                    @ showNat (maxCapacity slot) @ '')'',
                        result_slotInfo = Some \<lparr>info_slotId = slotId,
                                                info_currentLoad = currentLoad slot,
                                                info_maxCapacity = maxCapacity slot\<rparr>\<rparr>,
                       st2)))"

text \<open>
  \<^verbatim>\<open>tryBumpLowerPriority\<close>. The candidates are the allocated tokens the store knows, in
  allocation order; the last one that may be bumped is evicted. The local \<^verbatim>\<open>slot\<close> is the
  object \<^verbatim>\<open>removeTokenFromSlot\<close> assigned the load to, and it is read again for the
  \<^verbatim>\<open>slotInfo\<close> of the result.
\<close>

definition bumpableCandidates :: "store \<Rightarrow> token \<Rightarrow> timeSlot \<Rightarrow> token list" where
  "bumpableCandidates st tok slot =
     filter (\<lambda>t. canBump (patientType tok) (patientType t) \<and> canBeBumped (bumpCount t))
       (List.map_filter (getToken st) (allocatedTokens slot))"

definition tryBumpLowerPriority ::
  "store \<Rightarrow> token \<Rightarrow> string \<Rightarrow> int \<Rightarrow> error + (allocationResult \<times> store)" where
  "tryBumpLowerPriority st tok slotId now =
     (case getSlot st slotId of
        None \<Rightarrow> Inr (\<lparr>success = False, result_token = Some tok,
                       message = ''Slot not found'', result_slotInfo = None\<rparr>, st)
      | Some slot \<Rightarrow>
          (case rev (bumpableCandidates st tok slot) of
             [] \<Rightarrow> Inr (\<lparr>success = False, result_token = Some tok,
                           message = ''No bumpable patients found'', result_slotInfo = None\<rparr>, st)
           | tokenToBump # _ \<Rightarrow>
               let st1 = removeTokenFromSlot st slotId (token_id tokenToBump);
                   st2 = updateToken st1 (token_id tokenToBump)
                           (\<lambda>t. t\<lparr>token_status := WAITLISTED, token_slotId := None,
                                  allocatedAt := None,
                                  bumpCount := bumpCount tokenToBump + 1\<rparr>)
               in (case addToWaitlist st2 slotId (token_id tokenToBump) of
                     Inl e \<Rightarrow> Inl e
                   | Inr st3 \<Rightarrow>
                       (case addTokenToSlot st3 slotId (token_id tok) of
                          Inl e \<Rightarrow> Inl e
                        | Inr st4 \<Rightarrow>
                            let st5 = updateToken st4 (token_id tok)
                                        (\<lambda>t. t\<lparr>token_status := ALLOCATED,
                                               token_slotId := Some slotId,
                                               allocatedAt := Some now\<rparr>)
                            in Inr (\<lparr>success = True,
                                     result_token = getToken st5 (token_id tok),
                                     message = ''Allocated by bumping patient ''
                                                 @ patientName tokenToBump,
                                     result_slotInfo =
                                       Some \<lparr>info_slotId = slotId,
                                             info_currentLoad =
                                               length (filter (\<lambda>i. i \<noteq> token_id tokenToBump)
                                                         (allocatedTokens slot)),
                                             info_maxCapacity = maxCapacity slot\<rparr>\<rparr>,
                                    st5)))))"

text \<open>The allocator's own \<^verbatim>\<open>addToWaitlist\<close> (the slot manager has one of the same name).\<close>

definition allocatorAddToWaitlist ::
  "store \<Rightarrow> token \<Rightarrow> string \<Rightarrow> error + (allocationResult \<times> store)" where
  "allocatorAddToWaitlist st tok slotId =
     (case addToWaitlist st slotId (token_id tok) of
        Inl e \<Rightarrow> Inl e
      | Inr st1 \<Rightarrow>
          let st2 = updateToken st1 (token_id tok)
                      (\<lambda>t. t\<lparr>token_status := WAITLISTED, token_slotId := Some slotId\<rparr>)
          in (case getSlot st2 slotId of
                None \<Rightarrow> Inl (SlotNotFound slotId)
              | Some slot \<Rightarrow>
                  Inr (\<lparr>success = False,
                        result_token = getToken st2 (token_id tok),
                        message = ''Added to waitlist (position: ''
                                    @ showNat (length (waitlist slot)) @ '')'',
                        result_slotInfo = Some \<lparr>info_slotId = slotId,
                                                info_currentLoad = currentLoad slot,
                                                info_maxCapacity = maxCapacity slot\<rparr>\<rparr>,
                       st2)))"

text \<open>
  \<^verbatim>\<open>allocateToSlot\<close>. In case 1 the local \<^verbatim>\<open>slot\<close> is the object \<^verbatim>\<open>addTokenToSlot\<close> has
  just written the new load into, and the result reports that load plus one.
\<close>

definition allocateToSlot ::
  "store \<Rightarrow> token \<Rightarrow> string \<Rightarrow> int \<Rightarrow> error + (allocationResult \<times> store)" where
  "allocateToSlot st tok slotId now =
     (case getSlot st slotId of
        None \<Rightarrow> Inr (\<lparr>success = False, result_token = Some tok,
                       message = ''Slot not found'', result_slotInfo = None\<rparr>, st)
      | Some slot \<Rightarrow>
          if hasCapacity st slotId then
            (case addTokenToSlot st slotId (token_id tok) of
               Inl e \<Rightarrow> Inl e
             | Inr st1 \<Rightarrow>
                 let st2 = updateToken st1 (token_id tok)
                             (\<lambda>t. t\<lparr>token_status := ALLOCATED, token_slotId := Some slotId,
                                    allocatedAt := Some now\<rparr>)
                 in Inr (\<lparr>success = True,
                          result_token = getToken st2 (token_id tok),
                          message = ''Token allocated successfully'',
                          result_slotInfo =
                            Some \<lparr>info_slotId = slotId,
                                  info_currentLoad =
                                    length (allocatedTokens slot @ [token_id tok]) + 1,
                                  info_maxCapacity = maxCapacity slot\<rparr>\<rparr>,
                         st2))
          else if patientType tok = EMERGENCY then
            handleEmergencyAllocation st tok slotId now
          else if patientType tok = PAID_PRIORITY then
            (case tryBumpLowerPriority st tok slotId now of
               Inl e \<Rightarrow> Inl e
             | Inr (bumpResult, st1) \<Rightarrow>
                 if success bumpResult then Inr (bumpResult, st1)
                 else allocatorAddToWaitlist st1 tok slotId)
          else allocatorAddToWaitlist st tok slotId)"

definition allocateToken ::
  "store \<Rightarrow> string \<Rightarrow> int \<Rightarrow> string \<Rightarrow> patientType \<Rightarrow> string \<Rightarrow> string option
     \<Rightarrow> error + (allocationResult \<times> store)" where
  "allocateToken st newId now name ptype doctorId preferredSlotId =
     (let tok = \<lparr>token_id = newId, patientName = name, patientType = ptype,
                 priority = getPriorityScore ptype, token_doctorId = doctorId,
                 token_slotId = None, token_status = PENDING, createdAt = now,
                 allocatedAt = None, bumpCount = 0\<rparr>;
          st1 = addToken st tok;
          targetSlot = (if truthy preferredSlotId then getSlot st1 (the preferredSlotId)
                        else findBestAvailableSlot st1 doctorId)
      in (case targetSlot of
            None \<Rightarrow>
              let tok' = tok\<lparr>token_status := WAITLISTED\<rparr>;
                  st2 = mutateToken st1 (token_id tok') tok';
                  st3 = updateToken st2 (token_id tok') (\<lambda>_. tok')
              in Inr (\<lparr>success = False, result_token = Some tok',
                       message = ''No available slots. Added to general waitlist.'',
                       result_slotInfo = None\<rparr>, st3)
          | Some target \<Rightarrow> allocateToSlot st1 tok (slot_id target) now))"

text \<open>
  \<^verbatim>\<open>cancelToken\<close>: the local \<^verbatim>\<open>token\<close> is the object read at the start, so the two tests
  on \<^verbatim>\<open>token.status\<close> see the status before the cancellation. The token the promotion
  returns is only logged.
\<close>

definition cancelToken :: "store \<Rightarrow> string \<Rightarrow> int \<Rightarrow> error + (allocationResult \<times> store)" where
  "cancelToken st tokenId now =
     (case getToken st tokenId of
        None \<Rightarrow> Inl (TokenNotFound tokenId)
      | Some tok \<Rightarrow>
          if token_status tok = CANCELLED then
            Inr (\<lparr>success = False, result_token = Some tok,
                  message = ''Token already cancelled'', result_slotInfo = None\<rparr>, st)
          else
            let slotId = token_slotId tok;
                st1 = updateToken st tokenId (\<lambda>t. t\<lparr>token_status := CANCELLED\<rparr>)
            in (case (if truthy slotId \<and> token_status tok = ALLOCATED
                      then promoteFromWaitlist (removeTokenFromSlot st1 (the slotId) tokenId)
                             (the slotId) now
                      else Inr (None, st1)) of
                  Inl e \<Rightarrow> Inl e
                | Inr (promoted, st2) \<Rightarrow>
                    let st3 = (if truthy slotId \<and> token_status tok = WAITLISTED
                               then removeFromWaitlist st2 (the slotId) tokenId
                               else st2)
                    in Inr (\<lparr>success = True, result_token = getToken st3 tokenId,
                             message = ''Token cancelled successfully'',
                             result_slotInfo = None\<rparr>, st3)))"

definition markNoShow :: "store \<Rightarrow> string \<Rightarrow> int \<Rightarrow> error + (allocationResult \<times> store)" where
  "markNoShow st tokenId now =
     (case getToken st tokenId of
        None \<Rightarrow> Inl (TokenNotFound tokenId)
      | Some tok \<Rightarrow>
          let slotId = token_slotId tok;
              st1 = updateToken st tokenId (\<lambda>t. t\<lparr>token_status := NO_SHOW\<rparr>)
          in (case (if truthy slotId
                    then promoteFromWaitlist (removeTokenFromSlot st1 (the slotId) tokenId)
                           (the slotId) now
                    else Inr (None, st1)) of
                Inl e \<Rightarrow> Inl e
              | Inr (promoted, st2) \<Rightarrow>
                  Inr (\<lparr>success = True, result_token = getToken st2 tokenId,
                        message = ''Marked as no-show, slot freed'',
                        result_slotInfo = None\<rparr>, st2)))"

definition completeToken :: "store \<Rightarrow> string \<Rightarrow> error + store" where
  "completeToken st tokenId =
     (case getToken st tokenId of
        None \<Rightarrow> Inl (TokenNotFound tokenId)
      | Some tok \<Rightarrow> Inr (updateToken st tokenId (\<lambda>t. t\<lparr>token_status := COMPLETED\<rparr>)))"


section \<open>Delay handler (core/delayHandler.ts)\<close>

text \<open>
  The detail lines of a redistribution are kept as data: who was moved from which start
  time to which, and who found no slot.
\<close>

datatype detail = Moved string string string | NoSlotFound string

record redistribution =
  redistributed :: nat
  failed :: nat
  details :: "detail list"

text \<open>
  The \<^verbatim>\<open>forEach\<close> over \<^verbatim>\<open>tokensToRedistribute\<close>. \<open>slot\<close> and \<open>otherSlots\<close> are the objects
  read before the loop; the capacity test reads the store as it is when the token is
  processed.
\<close>

fun redistributeTokens ::
  "string \<Rightarrow> timeSlot \<Rightarrow> timeSlot list \<Rightarrow> string list \<Rightarrow> store \<times> redistribution
     \<Rightarrow> error + (store \<times> redistribution)" where
  "redistributeTokens slotId slot otherSlots [] acc = Inr acc"
| "redistributeTokens slotId slot otherSlots (tokenId # rest) (st, r) =
     (case getToken st tokenId of
        None \<Rightarrow> redistributeTokens slotId slot otherSlots rest (st, r)
      | Some tok \<Rightarrow>
          (case find (\<lambda>s. hasCapacity st (slot_id s)) otherSlots of
             Some targetSlot \<Rightarrow>
               let st1 = removeTokenFromSlot st slotId tokenId;
                   st2 = removeFromWaitlist st1 slotId tokenId
               in (case addTokenToSlot st2 (slot_id targetSlot) tokenId of
                     Inl e \<Rightarrow> Inl e
                   | Inr st3 \<Rightarrow>
                       let st4 = updateToken st3 tokenId
                                   (\<lambda>t. t\<lparr>token_slotId := Some (slot_id targetSlot)\<rparr>)
                       in redistributeTokens slotId slot otherSlots rest
                            (st4, r\<lparr>redistributed := redistributed r + 1,
                                    details := details r @ [Moved (patientName tok)
                                                 (startTime slot) (startTime targetSlot)]\<rparr>))
           | None \<Rightarrow>
               redistributeTokens slotId slot otherSlots rest
                 (st, r\<lparr>failed := failed r + 1,
                        details := details r @ [NoSlotFound (patientName tok)]\<rparr>)))"

definition redistributePatientsFromSlot :: "store \<Rightarrow> string \<Rightarrow> error + (redistribution \<times> store)" where
  "redistributePatientsFromSlot st slotId =
     (case getSlot st slotId of
        None \<Rightarrow> Inl (SlotNotFound slotId)
      | Some slot \<Rightarrow>
          let tokensToRedistribute = allocatedTokens slot @ waitlist slot;
              otherSlots = filter (\<lambda>s. slot_id s \<noteq> slotId \<and> slot_status s \<noteq> CLOSED)
                             (getSlotsByDoctor st (slot_doctorId slot))
          in (case redistributeTokens slotId slot otherSlots tokensToRedistribute
                     (st, \<lparr>redistributed = 0, failed = 0, details = []\<rparr>) of
                Inl e \<Rightarrow> Inl e
              | Inr (st1, r) \<Rightarrow>
                  Inr (r, updateSlot st1 slotId (\<lambda>s. s\<lparr>slot_status := CLOSED\<rparr>))))"

text \<open>
  \<^verbatim>\<open>handleDoctorUnavailable\<close> closes every slot of the doctor; of its report only the two
  counts are kept.
\<close>

definition handleDoctorUnavailable :: "store \<Rightarrow> string \<Rightarrow> error + ((nat \<times> nat) \<times> store)" where
  "handleDoctorUnavailable st doctorId =
     (case getDoctor st doctorId of
        None \<Rightarrow> Inl (DoctorNotFound doctorId)
      | Some d \<Rightarrow>
          let ss = getSlotsByDoctor st doctorId;
              totalAffected = sum_list (map (\<lambda>s. length (allocatedTokens s) + length (waitlist s)) ss);
              st1 = fold (\<lambda>s acc. updateSlot acc (slot_id s) (\<lambda>x. x\<lparr>slot_status := CLOSED\<rparr>)) ss st
          in Inr ((length ss, totalAffected), st1))"


section \<open>Running the engine\<close>

text \<open>
  A call of the engine as data. Every \<^verbatim>\<open>throw\<close> of the engine comes before the first
  write of the method that raises it, so a call that throws leaves the store as it
  found it.
\<close>

datatype operation =
    Allocate string int string patientType string "string option"
  | Cancel string int
  | NoShow string int
  | Complete string
  | Redistribute string
  | DoctorUnavailable string

definition resultOf :: "error + ('a \<times> store) \<Rightarrow> 'a option" where
  "resultOf x = (case x of Inl e \<Rightarrow> None | Inr p \<Rightarrow> Some (fst p))"

definition storeAfter :: "store \<Rightarrow> error + ('a \<times> store) \<Rightarrow> store" where
  "storeAfter st x = (case x of Inl e \<Rightarrow> st | Inr p \<Rightarrow> snd p)"

fun applyOperation :: "store \<Rightarrow> operation \<Rightarrow> store" where
  "applyOperation st (Allocate newId now name ptype doctorId preferredSlotId) =
     storeAfter st (allocateToken st newId now name ptype doctorId preferredSlotId)"
| "applyOperation st (Cancel tokenId now) = storeAfter st (cancelToken st tokenId now)"
| "applyOperation st (NoShow tokenId now) = storeAfter st (markNoShow st tokenId now)"
| "applyOperation st (Complete tokenId) =
     (case completeToken st tokenId of Inl e \<Rightarrow> st | Inr st' \<Rightarrow> st')"
| "applyOperation st (Redistribute slotId) = storeAfter st (redistributePatientsFromSlot st slotId)"
| "applyOperation st (DoctorUnavailable doctorId) = storeAfter st (handleDoctorUnavailable st doctorId)"

definition runOperations :: "store \<Rightarrow> operation list \<Rightarrow> store" where
  "runOperations st ops = foldl applyOperation st ops"

text \<open>
  Seeded stores: one doctor, whose slots are fresh from \<^verbatim>\<open>createSlotsForDoctor\<close> with the
  given capacities.
\<close>

definition drKumar :: "string list \<Rightarrow> doctor" where
  "drKumar slotIds = \<lparr>doctor_id = ''doc-1'', doctor_name = ''Dr. Rajesh Kumar'',
                      specialization = ''Cardiology'', availableSlots = slotIds\<rparr>"

definition oneSlotStore :: "nat \<Rightarrow> store" where
  "oneSlotStore cap =
     addSlot (addDoctor emptyStore (drKumar [''slot-doc-1-0900'']))
       (newSlot ''slot-doc-1-0900'' ''doc-1'' ''09:00'' ''10:00'' cap)"

definition twoSlotStore :: "nat \<Rightarrow> nat \<Rightarrow> store" where
  "twoSlotStore cap1 cap2 =
     addSlot
       (addSlot (addDoctor emptyStore (drKumar [''slot-doc-1-0900'', ''slot-doc-1-1000'']))
          (newSlot ''slot-doc-1-0900'' ''doc-1'' ''09:00'' ''10:00'' cap1))
       (newSlot ''slot-doc-1-1000'' ''doc-1'' ''10:00'' ''11:00'' cap2)"

text \<open>Scenario A of the spec, then scenario B: two walk-ins, a paid-priority bump, an emergency.\<close>

definition scenarioA :: store where
  "scenarioA = runOperations (oneSlotStore 2)
     [Allocate ''t1'' 1 ''Asha'' WALK_IN ''doc-1'' None,
      Allocate ''t2'' 2 ''Binod'' WALK_IN ''doc-1'' None,
      Allocate ''t3'' 3 ''Chitra'' PAID_PRIORITY ''doc-1'' (Some ''slot-doc-1-0900'')]"

definition scenarioB :: store where
  "scenarioB = runOperations scenarioA
     [Allocate ''t4'' 4 ''Dev'' EMERGENCY ''doc-1'' (Some ''slot-doc-1-0900'')]"

text \<open>A slot of capacity 1 with one walk-in seated.\<close>

definition fullSlotStore :: store where
  "fullSlotStore = runOperations (oneSlotStore 1)
     [Allocate ''t1'' 1 ''Asha'' WALK_IN ''doc-1'' None]"

text \<open>The same, with a second walk-in waiting for that slot.\<close>

definition waitingStore :: store where
  "waitingStore = runOperations fullSlotStore
     [Allocate ''t2'' 2 ''Binod'' WALK_IN ''doc-1'' (Some ''slot-doc-1-0900'')]"

text \<open>The patient types of the tokens a slot holds, in allocation order.\<close>

definition allocatedTypes :: "store \<Rightarrow> string \<Rightarrow> patientType list" where
  "allocatedTypes st slotId =
     (case getSlot st slotId of
        None \<Rightarrow> []
      | Some slot \<Rightarrow> map patientType (List.map_filter (getToken st) (allocatedTokens slot)))"


text \<open>A no-show recorded for the patient who is waiting, not seated.\<close>

definition noShowWhileWaiting :: store where
  "noShowWhileWaiting = runOperations waitingStore [NoShow ''t2'' 3]"

text \<open>An emergency overflows the full slot and is then cancelled.\<close>

definition emergencyCancelled :: store where
  "emergencyCancelled = runOperations waitingStore
     [Allocate ''t3'' 3 ''Dev'' EMERGENCY ''doc-1'' (Some ''slot-doc-1-0900''),
      Cancel ''t3'' 4]"

text \<open>Two patients wait; the second is marked no-show; later the seated patient cancels.\<close>

definition twoWaiting :: store where
  "twoWaiting = runOperations waitingStore
     [Allocate ''t3'' 3 ''Chitra'' WALK_IN ''doc-1'' (Some ''slot-doc-1-0900'')]"

definition noShowThenCancel :: store where
  "noShowThenCancel = runOperations twoWaiting [NoShow ''t3'' 4, Cancel ''t1'' 5]"

text \<open>The doctor is reported unavailable before anybody is booked.\<close>

definition closedStore :: store where
  "closedStore = runOperations (oneSlotStore 2) [DoctorUnavailable ''doc-1'']"

text \<open>The place of a token in a slot's waitlist, counted from 1.\<close>

definition waitlistPosition :: "store \<Rightarrow> string \<Rightarrow> string \<Rightarrow> nat option" where
  "waitlistPosition st slotId tokenId =
     (case getSlot st slotId of
        None \<Rightarrow> None
      | Some slot \<Rightarrow>
          if tokenId \<in> set (waitlist slot)
          then Some (Suc (length (takeWhile (\<lambda>i. i \<noteq> tokenId) (waitlist slot))))
          else None)"


text \<open>
  The ids of a waitlist after \<^verbatim>\<open>sortWaitlist\<close>, as a function of the token lookup: the
  known tokens, sorted by the priority comparator.
\<close>

definition sortedIds :: "(string \<Rightarrow> token option) \<Rightarrow> string list \<Rightarrow> string list" where
  "sortedIds lookup ids =
     map token_id
       (sortBy (\<lambda>a b. compareTokenPriority (priority a) (createdAt a) (priority b) (createdAt b))
          (List.map_filter lookup ids))"

text \<open>Scenario A just before the bump: the paid-priority token is stored, the slot is full.\<close>

definition twoWalkIns :: store where
  "twoWalkIns = runOperations (oneSlotStore 2)
     [Allocate ''t1'' 1 ''Asha'' WALK_IN ''doc-1'' None,
      Allocate ''t2'' 2 ''Binod'' WALK_IN ''doc-1'' None]"

definition paidToken :: token where
  "paidToken = \<lparr>token_id = ''t3'', patientName = ''Chitra'', patientType = PAID_PRIORITY,
                 priority = 80, token_doctorId = ''doc-1'', token_slotId = None,
                 token_status = PENDING, createdAt = 3, allocatedAt = None, bumpCount = 0\<rparr>"

definition bumpRequestStore :: store where
  "bumpRequestStore = addToken twoWalkIns paidToken"

definition twoWalkInsSlot :: timeSlot where
  "twoWalkInsSlot =
     \<lparr>slot_id = ''slot-doc-1-0900'', slot_doctorId = ''doc-1'', startTime = ''09:00'',
      endTime = ''10:00'', maxCapacity = 2, currentLoad = 2, slot_status = AVAILABLE,
      allocatedTokens = [''t1'', ''t2''], waitlist = []\<rparr>"

text \<open>
  Section 4.4 of the spec in its own words. The candidates of a redistribution are the
  doctor's other slots that are not CLOSED, in the order the store lists them.
\<close>

definition otherOpenSlots :: "store \<Rightarrow> string \<Rightarrow> string list" where
  "otherOpenSlots st source =
     (case getSlot st source of
        None \<Rightarrow> []
      | Some src \<Rightarrow>
          map slot_id
            (filter (\<lambda>s. slot_doctorId s = slot_doctorId src \<and> slot_id s \<noteq> source
                         \<and> slot_status s \<noteq> CLOSED)
               (map snd (slots st))))"

text \<open>
  Moving a token: it leaves the allocated list and the waitlist of the source slot, joins
  the end of the target's allocated list, the loads follow the lists, and the token's slot
  reference becomes the target. Its status is left as it is.
\<close>

definition moveToken :: "store \<Rightarrow> string \<Rightarrow> string \<Rightarrow> string \<Rightarrow> store" where
  "moveToken st source target tokenId =
     (case (getSlot st source, getSlot st target, getToken st tokenId) of
        (Some src, Some tgt, Some tok) \<Rightarrow>
          mutateToken
            (mutateSlot
               (mutateSlot st source
                  (src\<lparr>allocatedTokens := removeAll tokenId (allocatedTokens src),
                       currentLoad := length (removeAll tokenId (allocatedTokens src)),
                       waitlist := removeAll tokenId (waitlist src)\<rparr>))
               target
               (tgt\<lparr>allocatedTokens := allocatedTokens tgt @ [tokenId],
                    currentLoad := length (allocatedTokens tgt) + 1\<rparr>))
            tokenId (tok\<lparr>token_slotId := Some target\<rparr>)
      | _ \<Rightarrow> st)"

text \<open>
  First fit: each token in turn goes to the first candidate that has spare capacity at
  that moment and counts as moved, or stays and counts as unmoved when no candidate has
  room.
\<close>

fun firstFitRedistribution ::
  "string \<Rightarrow> string list \<Rightarrow> string list \<Rightarrow> store \<Rightarrow> nat \<times> nat \<times> store" where
  "firstFitRedistribution source candidates [] st = (0, 0, st)"
| "firstFitRedistribution source candidates (tokenId # rest) st =
     (case find (hasCapacity st) candidates of
        Some target \<Rightarrow>
          (case firstFitRedistribution source candidates rest (moveToken st source target tokenId) of
             (moved, unmoved, st') \<Rightarrow> (Suc moved, unmoved, st'))
      | None \<Rightarrow>
          (case firstFitRedistribution source candidates rest st of
             (moved, unmoved, st') \<Rightarrow> (moved, Suc unmoved, st')))"

text \<open>The tokens a slot still holds, allocated first, then waitlisted.\<close>

definition remainingTokens :: "store \<Rightarrow> string \<Rightarrow> string list" where
  "remainingTokens st slotId =
     (case getSlot st slotId of None \<Rightarrow> [] | Some s \<Rightarrow> allocatedTokens s @ waitlist s)"

text \<open>
  Scenario E of the spec: three tokens allocated in the 09:00 slot, the only sibling slot
  has two free places.
\<close>

definition scenarioE :: store where
  "scenarioE = runOperations (twoSlotStore 3 2)
     [Allocate ''t1'' 1 ''Asha'' WALK_IN ''doc-1'' (Some ''slot-doc-1-0900''),
      Allocate ''t2'' 2 ''Binod'' FOLLOW_UP ''doc-1'' (Some ''slot-doc-1-0900''),
      Allocate ''t3'' 3 ''Chitra'' WALK_IN ''doc-1'' (Some ''slot-doc-1-0900'')]"

definition scenarioESlot :: timeSlot where
  "scenarioESlot =
     \<lparr>slot_id = ''slot-doc-1-0900'', slot_doctorId = ''doc-1'', startTime = ''09:00'',
      endTime = ''10:00'', maxCapacity = 3, currentLoad = 3, slot_status = AVAILABLE,
      allocatedTokens = [''t1'', ''t2'', ''t3''], waitlist = []\<rparr>"

text \<open>
  The order of the waitlist: \<open>a\<close> stands before \<open>b\<close> when the comparator does not put
  \<open>b\<close> first, that is when \<open>a\<close> has the higher score, or the same score and a creation
  time that is not later.
\<close>

definition tokenOrder :: "token \<Rightarrow> token \<Rightarrow> bool" where
  "tokenOrder a b =
     (compareTokenPriority (priority a) (createdAt a) (priority b) (createdAt b) \<le> 0)"

definition waitlistSorted :: "(string \<Rightarrow> token option) \<Rightarrow> string list \<Rightarrow> bool" where
  "waitlistSorted lookup ids = sorted_wrt tokenOrder (List.map_filter lookup ids)"

text \<open>
  The consistency of a store, as sections 3 and 8 of the spec have it. A slot is stored
  under its id, which is not empty; its load is the length of its allocated list; no id
  occurs twice in its two lists; every listed id is a stored token; its waitlist is
  sorted. A token is stored under its id, and an ALLOCATED token is in the allocated list
  of the slot it refers to. No id is listed by two slots.
\<close>

definition slotOk :: "store \<Rightarrow> string \<Rightarrow> timeSlot \<Rightarrow> bool" where
  "slotOk st k s \<longleftrightarrow>
     slot_id s = k \<and> k \<noteq> []
     \<and> currentLoad s = length (allocatedTokens s)
     \<and> distinct (allocatedTokens s @ waitlist s)
     \<and> (\<forall>i\<in>set (allocatedTokens s @ waitlist s). getToken st i \<noteq> None)
     \<and> waitlistSorted (getToken st) (waitlist s)"

definition tokenOk :: "store \<Rightarrow> string \<Rightarrow> token \<Rightarrow> bool" where
  "tokenOk st k t \<longleftrightarrow>
     token_id t = k
     \<and> (token_status t = ALLOCATED \<longrightarrow>
          (case token_slotId t of
             None \<Rightarrow> False
           | Some sid \<Rightarrow>
               (case getSlot st sid of
                  None \<Rightarrow> False
                | Some s \<Rightarrow> k \<in> set (allocatedTokens s))))"

definition wellFormed :: "store \<Rightarrow> bool" where
  "wellFormed st \<longleftrightarrow>
     (\<forall>k s. getSlot st k = Some s \<longrightarrow> slotOk st k s)
     \<and> (\<forall>k t. getToken st k = Some t \<longrightarrow> tokenOk st k t)
     \<and> (\<forall>k k' s s'. k \<noteq> k' \<longrightarrow> getSlot st k = Some s \<longrightarrow> getSlot st k' = Some s' \<longrightarrow>
            set (allocatedTokens s @ waitlist s) \<inter> set (allocatedTokens s' @ waitlist s') = {})"

text \<open>The same checks, run over the entries of the store.\<close>

definition consistent :: "store \<Rightarrow> bool" where
  "consistent st \<longleftrightarrow>
     list_all (\<lambda>(k, s). slotOk st k s) (slots st)
     \<and> list_all (\<lambda>(k, t). tokenOk st k t) (tokens st)
     \<and> list_all (\<lambda>(k, s). list_all (\<lambda>(k', s'). k = k' \<or>
            list_all (\<lambda>i. i \<notin> set (allocatedTokens s' @ waitlist s'))
              (allocatedTokens s @ waitlist s)) (slots st)) (slots st)"

text \<open>Scenario C of the spec starts from scenario B: t3 is seated, t2 waits.\<close>

definition seatedPaidToken :: token where
  "seatedPaidToken = \<lparr>token_id = ''t3'', patientName = ''Chitra'', patientType = PAID_PRIORITY,
      priority = 80, token_doctorId = ''doc-1'', token_slotId = Some ''slot-doc-1-0900'',
      token_status = ALLOCATED, createdAt = 3, allocatedAt = Some 3, bumpCount = 0\<rparr>"

definition overflowSlot :: timeSlot where
  "overflowSlot =
     \<lparr>slot_id = ''slot-doc-1-0900'', slot_doctorId = ''doc-1'', startTime = ''09:00'',
      endTime = ''10:00'', maxCapacity = 2, currentLoad = 3, slot_status = AVAILABLE,
      allocatedTokens = [''t1'', ''t3'', ''t4''], waitlist = [''t2'']\<rparr>"

text \<open>What the waitlist order reads of a token.\<close>

definition sortKey :: "token \<Rightarrow> int \<times> int" where
  "sortKey t = (priority t, createdAt t)"

text \<open>The comparator \<^verbatim>\<open>sortWaitlist\<close> passes to \<^verbatim>\<open>sort\<close>.\<close>

abbreviation byPriority :: "token \<Rightarrow> token \<Rightarrow> int" where
  "byPriority \<equiv> \<lambda>a b. compareTokenPriority (priority a) (createdAt a) (priority b) (createdAt b)"

text \<open>A token id that no slot lists.\<close>

definition unlisted :: "store \<Rightarrow> string \<Rightarrow> bool" where
  "unlisted st k \<longleftrightarrow>
     (\<forall>sid s. getSlot st sid = Some s \<longrightarrow> k \<notin> set (allocatedTokens s @ waitlist s))"

text \<open>
  \<^verbatim>\<open>uuidv4()\<close> is taken to return an id that no stored token has.
\<close>

fun usesFreshId :: "store \<Rightarrow> operation \<Rightarrow> bool" where
  "usesFreshId st (Allocate newId now name ptype doctorId preferredSlotId) =
     (getToken st newId = None)"
| "usesFreshId st (Cancel tokenId now) = True"
| "usesFreshId st (NoShow tokenId now) = True"
| "usesFreshId st (Complete tokenId) = True"
| "usesFreshId st (Redistribute slotId) = True"
| "usesFreshId st (DoctorUnavailable doctorId) = True"

fun useFreshIds :: "store \<Rightarrow> operation list \<Rightarrow> bool" where
  "useFreshIds st [] = True"
| "useFreshIds st (operation # rest) =
     (usesFreshId st operation \<and> useFreshIds (applyOperation st operation) rest)"

section \<open>Facts about the store\<close>

lemma update_fresh_append:
  "k \<notin> fst ` set al \<Longrightarrow> AList.update k v al = al @ [(k, v)]"
  by (induction al) auto

lemma update_appended:
  "k \<notin> fst ` set al \<Longrightarrow> AList.update k v (al @ [(k, w)]) = al @ [(k, v)]"
  by (induction al) auto

lemma map_of_appended:
  "k \<notin> fst ` set al \<Longrightarrow> map_of (al @ [(k, w)]) k = Some w"
  by (induction al) auto


section \<open>Emergency requests\<close>

text \<open>
  C1. The claim: every EMERGENCY request is admitted and its outcome has the success
  flag set. The engine breaks it: an emergency request that names no slot, for a doctor
  whose only slot is full, is not admitted. \<^verbatim>\<open>findBestAvailableSlot\<close> returns nothing, the
  token is left WAITLISTED without a slot, the outcome reports failure, and the slot
  keeps its one token.
\<close>

theorem emergency_without_free_slot_rejected:
  "map_option success
     (resultOf (allocateToken fullSlotStore ''t2'' 2 ''Ravi'' EMERGENCY ''doc-1'' None))
     = Some False
   \<and> map_option token_status
       (getToken (storeAfter fullSlotStore
          (allocateToken fullSlotStore ''t2'' 2 ''Ravi'' EMERGENCY ''doc-1'' None)) ''t2'')
     = Some WAITLISTED
   \<and> map_option allocatedTokens
       (getSlot (storeAfter fullSlotStore
          (allocateToken fullSlotStore ''t2'' 2 ''Ravi'' EMERGENCY ''doc-1'' None))
          ''slot-doc-1-0900'')
     = Some [''t1'']"
  by code_simp


section \<open>Slot status\<close>

lemma getSlot_updateSlot_same:
  "getSlot (updateSlot st k f) k = map_option f (getSlot st k)"
  by (simp add: getSlot_def updateSlot_def update_conv' split: option.splits)

lemma getSlot_mutateSlot_same: "getSlot (mutateSlot st k slot) k = Some slot"
  by (simp add: getSlot_def mutateSlot_def update_conv')

lemma getSlot_updateSlotStatus_None:
  "getSlot st k = None \<Longrightarrow> getSlot (updateSlotStatus st k) k = None"
  by (simp add: updateSlotStatus_def)

lemma getSlot_updateSlotStatus_Some:
  "getSlot st k = Some slot \<Longrightarrow> getSlot (updateSlotStatus st k) k \<noteq> None"
  by (simp add: updateSlotStatus_def Let_def getSlot_updateSlot_same)

text \<open>
  Whatever \<^verbatim>\<open>updateSlotStatus\<close> computes is overwritten: admission and eviction leave
  the stored status as it was.
\<close>

lemma addTokenToSlot_keeps_status:
  assumes "addTokenToSlot st slotId tokenId = Inr st'"
  shows "map_option slot_status (getSlot st' slotId) = map_option slot_status (getSlot st slotId)"
proof (cases "getSlot st slotId")
  case None
  with assms show ?thesis by (simp add: addTokenToSlot_def)
next
  case (Some slot0)
  let ?slot = "slot0\<lparr>allocatedTokens := allocatedTokens slot0 @ [tokenId],
                      currentLoad := length (allocatedTokens slot0 @ [tokenId])\<rparr>"
  have "getSlot (updateSlotStatus (mutateSlot st slotId ?slot) slotId) slotId \<noteq> None"
    by (rule getSlot_updateSlotStatus_Some) (rule getSlot_mutateSlot_same)
  then have "getSlot st' slotId = Some ?slot"
    using assms Some by (auto simp: addTokenToSlot_def Let_def getSlot_updateSlot_same)
  then show ?thesis using Some by simp
qed

lemma removeTokenFromSlot_keeps_status:
  "map_option slot_status (getSlot (removeTokenFromSlot st slotId tokenId) slotId)
     = map_option slot_status (getSlot st slotId)"
proof (cases "getSlot st slotId")
  case None
  then show ?thesis by (simp add: removeTokenFromSlot_def)
next
  case (Some slot0)
  let ?slot = "slot0\<lparr>allocatedTokens := filter (\<lambda>i. i \<noteq> tokenId) (allocatedTokens slot0),
                      currentLoad := length (filter (\<lambda>i. i \<noteq> tokenId) (allocatedTokens slot0))\<rparr>"
  have "getSlot (updateSlotStatus (mutateSlot st slotId ?slot) slotId) slotId \<noteq> None"
    by (rule getSlot_updateSlotStatus_Some) (rule getSlot_mutateSlot_same)
  then have "getSlot (removeTokenFromSlot st slotId tokenId) slotId = Some ?slot"
    using Some by (auto simp: removeTokenFromSlot_def Let_def getSlot_updateSlot_same)
  then show ?thesis using Some by simp
qed

text \<open>
  C2. The claim: after every admission and eviction the stored status is recomputed from
  the load, and scenario B ends with load 3 and status OVERFLOW. The engine breaks it: in
  scenario B (capacity 2, two walk-ins, a paid-priority bump, then an emergency) the slot
  ends with load 3 over capacity 2 and the status it was created with, AVAILABLE; after
  scenario A, with load 2 of 2, the status is AVAILABLE as well, not FULL.
\<close>

theorem scenarioB_status_stays_available:
  "map_option currentLoad (getSlot scenarioB ''slot-doc-1-0900'') = Some 3
   \<and> map_option maxCapacity (getSlot scenarioB ''slot-doc-1-0900'') = Some 2
   \<and> map_option slot_status (getSlot scenarioB ''slot-doc-1-0900'') = Some AVAILABLE
   \<and> map_option currentLoad (getSlot scenarioA ''slot-doc-1-0900'') = Some 2
   \<and> map_option slot_status (getSlot scenarioA ''slot-doc-1-0900'') = Some AVAILABLE"
  by code_simp


section \<open>Capacity\<close>

text \<open>
  C3. The claim: a slot's load exceeds its capacity only while an EMERGENCY token is among
  its allocated tokens, whatever operations ran. The engine breaks it twice over. A
  no-show recorded for a waiting patient promotes the head of the waitlist into the full
  slot: capacity 1, load 2, two walk-ins. And cancelling the emergency that overflowed a
  slot promotes the waiting walk-in into the seat the emergency never had: capacity 1,
  load 2, two walk-ins.
\<close>

theorem overflow_without_emergency:
  "map_option maxCapacity (getSlot noShowWhileWaiting ''slot-doc-1-0900'') = Some 1
   \<and> map_option currentLoad (getSlot noShowWhileWaiting ''slot-doc-1-0900'') = Some 2
   \<and> allocatedTypes noShowWhileWaiting ''slot-doc-1-0900'' = [WALK_IN, WALK_IN]
   \<and> map_option maxCapacity (getSlot emergencyCancelled ''slot-doc-1-0900'') = Some 1
   \<and> map_option currentLoad (getSlot emergencyCancelled ''slot-doc-1-0900'') = Some 2
   \<and> allocatedTypes emergencyCancelled ''slot-doc-1-0900'' = [WALK_IN, WALK_IN]"
  by code_simp


section \<open>Terminal statuses\<close>

text \<open>
  C4. The claim: CANCELLED, NO_SHOW and COMPLETED are terminal. The engine breaks it: the
  waiting token t3 is marked NO_SHOW and stays on the waitlist; when the seated patient
  cancels, the promotion makes t3 ALLOCATED. Likewise a cancelled token can still be
  completed.
\<close>

theorem no_show_token_promoted:
  "map_option token_status (getToken (runOperations twoWaiting [NoShow ''t3'' 4]) ''t3'')
     = Some NO_SHOW
   \<and> map_option token_status (getToken noShowThenCancel ''t3'') = Some ALLOCATED
   \<and> map_option allocatedTokens (getSlot noShowThenCancel ''slot-doc-1-0900'')
       = Some [''t2'', ''t3'']
   \<and> map_option token_status (getToken noShowThenCancel ''t1'') = Some CANCELLED
   \<and> map_option token_status
       (getToken (runOperations noShowThenCancel [Complete ''t1'']) ''t1'') = Some COMPLETED"
  by code_simp


section \<open>Closed slots\<close>

text \<open>
  C7. The claim: a CLOSED slot admits nobody. The engine breaks it: \<^verbatim>\<open>hasCapacity\<close> looks
  at the load only, so a request that names a closed slot with a free seat is seated
  there.
\<close>

theorem closed_slot_admits:
  "map_option slot_status (getSlot closedStore ''slot-doc-1-0900'') = Some CLOSED
   \<and> map_option allocatedTokens (getSlot closedStore ''slot-doc-1-0900'') = Some []
   \<and> map_option success
       (resultOf (allocateToken closedStore ''t1'' 1 ''Asha'' WALK_IN ''doc-1''
          (Some ''slot-doc-1-0900''))) = Some True
   \<and> map_option allocatedTokens
       (getSlot (storeAfter closedStore
          (allocateToken closedStore ''t1'' 1 ''Asha'' WALK_IN ''doc-1''
             (Some ''slot-doc-1-0900''))) ''slot-doc-1-0900'') = Some [''t1'']
   \<and> map_option currentLoad
       (getSlot (storeAfter closedStore
          (allocateToken closedStore ''t1'' 1 ''Asha'' WALK_IN ''doc-1''
             (Some ''slot-doc-1-0900''))) ''slot-doc-1-0900'') = Some 1
   \<and> map_option slot_status
       (getSlot (storeAfter closedStore
          (allocateToken closedStore ''t1'' 1 ''Asha'' WALK_IN ''doc-1''
             (Some ''slot-doc-1-0900''))) ''slot-doc-1-0900'') = Some CLOSED"
  by code_simp


section \<open>Waitlist position\<close>

text \<open>
  C9. The claim: the outcome of a waitlisted request reports the new token's own place in
  the sorted waitlist. The engine breaks it: it reports the length of the waitlist. A
  follow-up patient who joins a waitlist that holds one walk-in is sorted to the front,
  place 1, and is told "position: 2".
\<close>

theorem waitlist_message_reports_length:
  "map_option message
     (resultOf (allocateToken waitingStore ''t3'' 3 ''Chitra'' FOLLOW_UP ''doc-1''
        (Some ''slot-doc-1-0900''))) = Some ''Added to waitlist (position: 2)''
   \<and> map_option waitlist
       (getSlot (storeAfter waitingStore
          (allocateToken waitingStore ''t3'' 3 ''Chitra'' FOLLOW_UP ''doc-1''
             (Some ''slot-doc-1-0900''))) ''slot-doc-1-0900'') = Some [''t3'', ''t2'']
   \<and> waitlistPosition
       (storeAfter waitingStore
          (allocateToken waitingStore ''t3'' 3 ''Chitra'' FOLLOW_UP ''doc-1''
             (Some ''slot-doc-1-0900''))) ''slot-doc-1-0900'' ''t3'' = Some 1"
  by code_simp


section \<open>A preferred slot that does not exist\<close>

text \<open>
  C10, as stated: every request whose preferredSlotId names no stored slot ends on the
  general waitlist, and no slot changes. It fails for the empty string, which names no
  slot and which the engine treats as "no preference": the request is placed by
  \<^verbatim>\<open>findBestAvailableSlot\<close> and the token is seated.
\<close>

theorem empty_preferred_slot_is_ignored:
  "getSlot (oneSlotStore 1) [] = None
   \<and> map_option success
       (resultOf (allocateToken (oneSlotStore 1) ''t1'' 1 ''Asha'' WALK_IN ''doc-1'' (Some [])))
     = Some True
   \<and> map_option token_status
       (getToken (storeAfter (oneSlotStore 1)
          (allocateToken (oneSlotStore 1) ''t1'' 1 ''Asha'' WALK_IN ''doc-1'' (Some []))) ''t1'')
     = Some ALLOCATED
   \<and> map_option allocatedTokens
       (getSlot (storeAfter (oneSlotStore 1)
          (allocateToken (oneSlotStore 1) ''t1'' 1 ''Asha'' WALK_IN ''doc-1'' (Some [])))
          ''slot-doc-1-0900'')
     = Some [''t1'']"
  by code_simp

text \<open>
  C10, amended: for a preferredSlotId that is not empty and names no stored slot, and a
  token id the store has not seen, \<^verbatim>\<open>allocateToken\<close> does not throw; it appends exactly one
  token to the store, WAITLISTED and without a slot reference, returns a failure outcome
  with the "no available slots" message, and leaves doctors and slots untouched.
\<close>

theorem unknown_preferred_slot_general_waitlist:
  assumes "p \<noteq> []" and "getSlot st p = None" and "newId \<notin> fst ` set (tokens st)"
  shows "allocateToken st newId now name ptype doctorId (Some p) =
           Inr (\<lparr>success = False,
                 result_token = Some \<lparr>token_id = newId, patientName = name, patientType = ptype,
                    priority = getPriorityScore ptype, token_doctorId = doctorId,
                    token_slotId = None, token_status = WAITLISTED, createdAt = now,
                    allocatedAt = None, bumpCount = 0\<rparr>,
                 message = ''No available slots. Added to general waitlist.'',
                 result_slotInfo = None\<rparr>,
                st\<lparr>tokens := tokens st @ [(newId,
                   \<lparr>token_id = newId, patientName = name, patientType = ptype,
                    priority = getPriorityScore ptype, token_doctorId = doctorId,
                    token_slotId = None, token_status = WAITLISTED, createdAt = now,
                    allocatedAt = None, bumpCount = 0\<rparr>)]\<rparr>)"
proof -
  let ?tok = "\<lparr>token_id = newId, patientName = name, patientType = ptype,
                priority = getPriorityScore ptype, token_doctorId = doctorId,
                token_slotId = None, token_status = PENDING, createdAt = now,
                allocatedAt = None, bumpCount = 0\<rparr>"
  let ?tok' = "?tok\<lparr>token_status := WAITLISTED\<rparr>"
  have st1: "addToken st ?tok = st\<lparr>tokens := tokens st @ [(newId, ?tok)]\<rparr>"
    using assms(3) by (simp add: addToken_def update_fresh_append)
  have target: "getSlot (addToken st ?tok) p = None"
    using assms(2) by (simp add: getSlot_def addToken_def)
  have st2: "mutateToken (addToken st ?tok) newId ?tok' = st\<lparr>tokens := tokens st @ [(newId, ?tok')]\<rparr>"
    using assms(3) by (simp add: st1 mutateToken_def update_appended)
  have st3: "updateToken (st\<lparr>tokens := tokens st @ [(newId, ?tok')]\<rparr>) newId (\<lambda>_. ?tok')
               = st\<lparr>tokens := tokens st @ [(newId, ?tok')]\<rparr>"
    using assms(3) by (simp add: updateToken_def map_of_appended update_appended del: map_of_append)
  show ?thesis
    using assms(1) target st2 st3 by (simp add: allocateToken_def Let_def)
qed

theorem unknown_preferred_slot_witness:
  "allocateToken fullSlotStore ''t2'' 2 ''Binod'' WALK_IN ''doc-1'' (Some ''slot-doc-9-0900'') =
           Inr (\<lparr>success = False,
                 result_token = Some \<lparr>token_id = ''t2'', patientName = ''Binod'', patientType = WALK_IN,
                    priority = 20, token_doctorId = ''doc-1'',
                    token_slotId = None, token_status = WAITLISTED, createdAt = 2,
                    allocatedAt = None, bumpCount = 0\<rparr>,
                 message = ''No available slots. Added to general waitlist.'',
                 result_slotInfo = None\<rparr>,
                fullSlotStore\<lparr>tokens := tokens fullSlotStore @ [(''t2'',
                   \<lparr>token_id = ''t2'', patientName = ''Binod'', patientType = WALK_IN,
                    priority = 20, token_doctorId = ''doc-1'',
                    token_slotId = None, token_status = WAITLISTED, createdAt = 2,
                    allocatedAt = None, bumpCount = 0\<rparr>)]\<rparr>)"
proof -
  have a: "''slot-doc-9-0900'' \<noteq> []" by simp
  have b: "getSlot fullSlotStore ''slot-doc-9-0900'' = None" by code_simp
  have c: "''t2'' \<notin> fst ` set (tokens fullSlotStore)" by code_simp
  show ?thesis
    using unknown_preferred_slot_general_waitlist [OF a b c, of 2 "''Binod''" WALK_IN "''doc-1''"]
    by simp
qed


section \<open>Reading the store after a write\<close>

lemma tokens_mutateSlot [simp]: "tokens (mutateSlot st k s) = tokens st"
  by (simp add: mutateSlot_def)

lemma slots_mutateToken [simp]: "slots (mutateToken st k t) = slots st"
  by (simp add: mutateToken_def)

lemma getToken_mutateSlot [simp]: "getToken (mutateSlot st k s) = getToken st"
  by (rule ext) (simp add: getToken_def)

lemma getSlot_mutateToken [simp]: "getSlot (mutateToken st k t) = getSlot st"
  by (rule ext) (simp add: getSlot_def)

lemma getSlot_mutateSlot [simp]: "getSlot (mutateSlot st k s) = (getSlot st)(k \<mapsto> s)"
  by (rule ext) (simp add: getSlot_def mutateSlot_def update_conv')

lemma getToken_mutateToken [simp]: "getToken (mutateToken st k t) = (getToken st)(k \<mapsto> t)"
  by (rule ext) (simp add: getToken_def mutateToken_def update_conv')

lemma mutateSlot_twice [simp]: "mutateSlot (mutateSlot st k s) k s' = mutateSlot st k s'"
  by (simp add: mutateSlot_def)

lemma mutateSlot_mutateToken [simp]:
  "mutateSlot (mutateToken st k t) k' s = mutateToken (mutateSlot st k' s) k t"
  by (simp add: mutateSlot_def mutateToken_def)

lemma mutateToken_twice [simp]: "mutateToken (mutateToken st k t) k t' = mutateToken st k t'"
  by (simp add: mutateToken_def)

lemma updateSlot_eq:
  "getSlot st k = Some s \<Longrightarrow> updateSlot st k f = mutateSlot st k (f s)"
  by (simp add: updateSlot_def getSlot_def mutateSlot_def)

lemma updateToken_eq:
  "getToken st k = Some t \<Longrightarrow> updateToken st k f = mutateToken st k (f t)"
  by (simp add: updateToken_def getToken_def mutateToken_def)

lemma updateToken_unknown: "getToken st k = None \<Longrightarrow> updateToken st k f = st"
  by (simp add: updateToken_def getToken_def)

lemma updateSlotStatus_eq:
  "getSlot st k = Some s \<Longrightarrow> \<exists>status. updateSlotStatus st k = mutateSlot st k (s\<lparr>slot_status := status\<rparr>)"
  by (auto simp: updateSlotStatus_def Let_def updateSlot_eq)

section \<open>What the slot manager's writes amount to\<close>

lemma addTokenToSlot_eq:
  assumes "getSlot st slotId = Some s"
  shows "addTokenToSlot st slotId tokenId =
           Inr (mutateSlot st slotId
                  (s\<lparr>allocatedTokens := allocatedTokens s @ [tokenId],
                     currentLoad := Suc (length (allocatedTokens s))\<rparr>))"
proof -
  let ?slot = "s\<lparr>allocatedTokens := allocatedTokens s @ [tokenId],
                  currentLoad := length (allocatedTokens s @ [tokenId])\<rparr>"
  obtain status where
    "updateSlotStatus (mutateSlot st slotId ?slot) slotId
       = mutateSlot (mutateSlot st slotId ?slot) slotId (?slot\<lparr>slot_status := status\<rparr>)"
    using updateSlotStatus_eq [of "mutateSlot st slotId ?slot" slotId ?slot] by auto
  then show ?thesis
    using assms by (simp add: addTokenToSlot_def Let_def updateSlot_eq)
qed

lemma removeTokenFromSlot_eq:
  assumes "getSlot st slotId = Some s"
  shows "removeTokenFromSlot st slotId tokenId =
           mutateSlot st slotId
             (s\<lparr>allocatedTokens := filter (\<lambda>i. i \<noteq> tokenId) (allocatedTokens s),
                currentLoad := length (filter (\<lambda>i. i \<noteq> tokenId) (allocatedTokens s))\<rparr>)"
proof -
  let ?slot = "s\<lparr>allocatedTokens := filter (\<lambda>i. i \<noteq> tokenId) (allocatedTokens s),
                  currentLoad := length (filter (\<lambda>i. i \<noteq> tokenId) (allocatedTokens s))\<rparr>"
  obtain status where
    "updateSlotStatus (mutateSlot st slotId ?slot) slotId
       = mutateSlot (mutateSlot st slotId ?slot) slotId (?slot\<lparr>slot_status := status\<rparr>)"
    using updateSlotStatus_eq [of "mutateSlot st slotId ?slot" slotId ?slot] by auto
  then show ?thesis
    using assms by (simp add: removeTokenFromSlot_def Let_def updateSlot_eq)
qed

lemma removeTokenFromSlot_unknown:
  "getSlot st slotId = None \<Longrightarrow> removeTokenFromSlot st slotId tokenId = st"
  by (simp add: removeTokenFromSlot_def)

lemma removeFromWaitlist_eq:
  "getSlot st slotId = Some s \<Longrightarrow>
     removeFromWaitlist st slotId tokenId =
       mutateSlot st slotId (s\<lparr>waitlist := filter (\<lambda>i. i \<noteq> tokenId) (waitlist s)\<rparr>)"
  by (simp add: removeFromWaitlist_def Let_def updateSlot_eq)

lemma sortWaitlist_eq:
  "getSlot st slotId = Some s \<Longrightarrow>
     sortWaitlist st slotId =
       mutateSlot st slotId (s\<lparr>waitlist := sortedIds (getToken st) (waitlist s)\<rparr>)"
  by (simp add: sortWaitlist_def Let_def updateSlot_eq sortedIds_def)

lemma addToWaitlist_eq:
  "getSlot st slotId = Some s \<Longrightarrow>
     addToWaitlist st slotId tokenId =
       Inr (mutateSlot st slotId
              (s\<lparr>waitlist := sortedIds (getToken st) (waitlist s @ [tokenId])\<rparr>))"
  by (simp add: addToWaitlist_def Let_def sortWaitlist_eq updateSlot_eq)

section \<open>Sorting and filtering\<close>

lemma set_insertBy [simp]: "set (insertBy c x xs) = insert x (set xs)"
  by (induction xs) auto

lemma set_sortBy [simp]: "set (sortBy c xs) = set xs"
  by (induction xs) auto

lemma set_map_filter: "set (List.map_filter f xs) = {y. \<exists>x\<in>set xs. f x = Some y}"
  by (induction xs) (auto simp: List.map_filter_simps split: option.splits)

lemma map_filter_append:
  "List.map_filter f (xs @ ys) = List.map_filter f xs @ List.map_filter f ys"
  by (simp add: List.map_filter_def)

lemma last_qualifying:
  assumes "filter P (List.map_filter f xs) \<noteq> []"
  shows "\<exists>before i after. xs = before @ i # after
           \<and> f i = Some (last (filter P (List.map_filter f xs)))
           \<and> (\<forall>j\<in>set after. \<forall>t. f j = Some t \<longrightarrow> \<not> P t)"
  using assms
proof (induction xs rule: rev_induct)
  case Nil
  then show ?case by (simp add: List.map_filter_simps)
next
  case (snoc x xs)
  show ?case
  proof (cases "\<exists>t. f x = Some t \<and> P t")
    case True
    then obtain t where t: "f x = Some t" "P t" by blast
    then have "last (filter P (List.map_filter f (xs @ [x]))) = t"
      by (simp add: map_filter_append List.map_filter_simps)
    with t show ?thesis by (intro exI [of _ xs] exI [of _ x] exI [of _ "[]"]) simp
  next
    case False
    then have same: "filter P (List.map_filter f (xs @ [x])) = filter P (List.map_filter f xs)"
      by (auto simp: map_filter_append List.map_filter_simps split: option.splits)
    with snoc.prems have "filter P (List.map_filter f xs) \<noteq> []" by simp
    from snoc.IH [OF this] obtain before i after where
      "xs = before @ i # after"
      "f i = Some (last (filter P (List.map_filter f xs)))"
      "\<forall>j\<in>set after. \<forall>t. f j = Some t \<longrightarrow> \<not> P t"
      by blast
    with False same show ?thesis
      by (intro exI [of _ before] exI [of _ i] exI [of _ "after @ [x]"]) auto
  qed
qed

lemma stored_token_id:
  "list_all (\<lambda>(k, t). token_id t = k) (tokens st) \<Longrightarrow> getToken st i = Some t \<Longrightarrow> token_id t = i"
  by (auto simp: getToken_def list_all_iff dest: map_of_SomeD)

lemma mem_sortedIds:
  "lookup i = Some t \<Longrightarrow> token_id t = i \<Longrightarrow> i \<in> set ids \<Longrightarrow> i \<in> set (sortedIds lookup ids)"
  by (force simp: sortedIds_def set_map_filter)

section \<open>Bumping\<close>

lemma tryBump_none:
  assumes "getSlot st slotId = Some slot" and "bumpableCandidates st tok slot = []"
  shows "tryBumpLowerPriority st tok slotId now =
           Inr (\<lparr>success = False, result_token = Some tok,
                 message = ''No bumpable patients found'', result_slotInfo = None\<rparr>, st)"
  using assms by (simp add: tryBumpLowerPriority_def)

lemma tryBump_some:
  assumes slot: "getSlot st slotId = Some slot"
    and cands: "bumpableCandidates st tok slot \<noteq> []"
    and old: "old = last (bumpableCandidates st tok slot)"
    and oldStored: "getToken st (token_id old) = Some old"
    and tokStored: "getToken st (token_id tok) = Some tok"
    and distinctIds: "token_id old \<noteq> token_id tok"
  shows "\<exists>r. tryBumpLowerPriority st tok slotId now =
           Inr (r,
             mutateToken
               (mutateToken
                  (mutateSlot st slotId
                     (slot\<lparr>allocatedTokens :=
                             filter (\<lambda>i. i \<noteq> token_id old) (allocatedTokens slot) @ [token_id tok],
                           currentLoad :=
                             Suc (length (filter (\<lambda>i. i \<noteq> token_id old) (allocatedTokens slot))),
                           waitlist :=
                             sortedIds
                               ((getToken st)(token_id old \<mapsto>
                                  old\<lparr>token_status := WAITLISTED, token_slotId := None,
                                      allocatedAt := None, bumpCount := bumpCount old + 1\<rparr>))
                               (waitlist slot @ [token_id old])\<rparr>))
                  (token_id old)
                  (old\<lparr>token_status := WAITLISTED, token_slotId := None, allocatedAt := None,
                       bumpCount := bumpCount old + 1\<rparr>))
               (token_id tok)
               (tok\<lparr>token_status := ALLOCATED, token_slotId := Some slotId,
                    allocatedAt := Some now\<rparr>))
           \<and> success r"
proof -
  let ?oid = "token_id old"
  let ?s1 = "slot\<lparr>allocatedTokens := filter (\<lambda>i. i \<noteq> ?oid) (allocatedTokens slot),
                    currentLoad := length (filter (\<lambda>i. i \<noteq> ?oid) (allocatedTokens slot))\<rparr>"
  let ?old' = "old\<lparr>token_status := WAITLISTED, token_slotId := None, allocatedAt := None,
                    bumpCount := bumpCount old + 1\<rparr>"
  let ?st1 = "mutateSlot st slotId ?s1"
  let ?st2 = "mutateToken ?st1 ?oid ?old'"
  let ?s3 = "?s1\<lparr>waitlist := sortedIds (getToken ?st2) (waitlist ?s1 @ [?oid])\<rparr>"
  let ?st3 = "mutateSlot ?st2 slotId ?s3"
  let ?s4 = "?s3\<lparr>allocatedTokens := allocatedTokens ?s3 @ [token_id tok],
                   currentLoad := Suc (length (allocatedTokens ?s3))\<rparr>"
  let ?st4 = "mutateSlot ?st3 slotId ?s4"
  obtain rest where rev: "rev (bumpableCandidates st tok slot) = old # rest"
    using cands old by (cases "bumpableCandidates st tok slot" rule: rev_cases) auto
  have r1: "removeTokenFromSlot st slotId ?oid = ?st1"
    using slot by (rule removeTokenFromSlot_eq)
  have r2: "updateToken ?st1 ?oid
              (\<lambda>t. t\<lparr>token_status := WAITLISTED, token_slotId := None, allocatedAt := None,
                     bumpCount := bumpCount old + 1\<rparr>) = ?st2"
    using oldStored by (simp add: updateToken_eq)
  have r3: "addToWaitlist ?st2 slotId ?oid = Inr ?st3"
    using addToWaitlist_eq [of ?st2 slotId ?s1 ?oid] by simp
  have r4: "addTokenToSlot ?st3 slotId (token_id tok) = Inr ?st4"
    using addTokenToSlot_eq [of ?st3 slotId ?s3 "token_id tok"] by simp
  have r5: "updateToken ?st4 (token_id tok)
              (\<lambda>t. t\<lparr>token_status := ALLOCATED, token_slotId := Some slotId,
                     allocatedAt := Some now\<rparr>)
            = mutateToken ?st4 (token_id tok)
                (tok\<lparr>token_status := ALLOCATED, token_slotId := Some slotId,
                     allocatedAt := Some now\<rparr>)"
    using tokStored distinctIds by (simp add: updateToken_eq)
  have "tryBumpLowerPriority st tok slotId now =
          Inr (\<lparr>success = True,
                result_token = getToken (mutateToken ?st4 (token_id tok)
                  (tok\<lparr>token_status := ALLOCATED, token_slotId := Some slotId,
                       allocatedAt := Some now\<rparr>)) (token_id tok),
                message = ''Allocated by bumping patient '' @ patientName old,
                result_slotInfo = Some \<lparr>info_slotId = slotId,
                  info_currentLoad = length (filter (\<lambda>i. i \<noteq> ?oid) (allocatedTokens slot)),
                  info_maxCapacity = maxCapacity slot\<rparr>\<rparr>,
               mutateToken ?st4 (token_id tok)
                  (tok\<lparr>token_status := ALLOCATED, token_slotId := Some slotId,
                       allocatedAt := Some now\<rparr>))"
    unfolding tryBumpLowerPriority_def
    by (simp only: slot rev Let_def option.case list.case sum.case r1 r2 r3 r4 r5)
  then show ?thesis by (cases slot) simp
qed

text \<open>
  C6. Bump invariant. Let the bumping token be stored under its id and not yet seated in
  the slot, as it is when \<^verbatim>\<open>allocateToSlot\<close> calls \<^verbatim>\<open>tryBumpLowerPriority\<close>. If no allocated
  token qualifies, nothing is evicted: the store is returned unchanged with a failure. If
  one does, the evicted token \<open>old\<close> is the last qualifying candidate: it satisfies
  \<open>canBump\<close> against the bumper and has been bumped fewer than 2 times, and no token
  after it in the slot's allocation order qualifies. Afterwards its bump count is one
  higher, it is WAITLISTED, it is on the waitlist of the same slot and no longer among the
  allocated tokens, and the bumper is ALLOCATED in that slot, last in allocation order.
\<close>

theorem bump_evicts_last_candidate:
  assumes keys: "list_all (\<lambda>(k, t). token_id t = k) (tokens st)"
    and stored: "getToken st (token_id tok) = Some tok"
    and slot: "getSlot st slotId = Some slot"
    and fresh: "token_id tok \<notin> set (allocatedTokens slot)"
  shows "if bumpableCandidates st tok slot = []
         then \<exists>r. tryBumpLowerPriority st tok slotId now = Inr (r, st) \<and> \<not> success r
         else \<exists>r st' slot' old before after.
                tryBumpLowerPriority st tok slotId now = Inr (r, st') \<and> success r
              \<and> old = last (bumpableCandidates st tok slot)
              \<and> getToken st (token_id old) = Some old
              \<and> canBump (patientType tok) (patientType old) \<and> bumpCount old < 2
              \<and> allocatedTokens slot = before @ token_id old # after
              \<and> (\<forall>j\<in>set after. \<forall>t. getToken st j = Some t \<longrightarrow>
                     \<not> (canBump (patientType tok) (patientType t) \<and> bumpCount t < 2))
              \<and> getToken st' (token_id old) =
                    Some (old\<lparr>token_status := WAITLISTED, token_slotId := None,
                              allocatedAt := None, bumpCount := bumpCount old + 1\<rparr>)
              \<and> getSlot st' slotId = Some slot'
              \<and> allocatedTokens slot' =
                    filter (\<lambda>i. i \<noteq> token_id old) (allocatedTokens slot) @ [token_id tok]
              \<and> token_id old \<in> set (waitlist slot')
              \<and> getToken st' (token_id tok) =
                    Some (tok\<lparr>token_status := ALLOCATED, token_slotId := Some slotId,
                              allocatedAt := Some now\<rparr>)"
proof (cases "bumpableCandidates st tok slot = []")
  case True
  then show ?thesis using tryBump_none [OF slot True] by simp
next
  case False
  define old where "old = last (bumpableCandidates st tok slot)"
  let ?P = "\<lambda>t. canBump (patientType tok) (patientType t) \<and> canBeBumped (bumpCount t)"
  let ?old' = "old\<lparr>token_status := WAITLISTED, token_slotId := None, allocatedAt := None,
                    bumpCount := bumpCount old + 1\<rparr>"
  have cands: "filter ?P (List.map_filter (getToken st) (allocatedTokens slot)) \<noteq> []"
    using False by (simp add: bumpableCandidates_def)
  from last_qualifying [OF cands] obtain before i after where
    split: "allocatedTokens slot = before @ i # after"
    and i: "getToken st i = Some old"
    and later: "\<forall>j\<in>set after. \<forall>t. getToken st j = Some t \<longrightarrow> \<not> ?P t"
    by (auto simp: old_def bumpableCandidates_def)
  have oid: "token_id old = i"
    using keys i by (rule stored_token_id)
  have "old \<in> set (bumpableCandidates st tok slot)"
    using False by (simp add: old_def)
  then have qual: "canBump (patientType tok) (patientType old)" "bumpCount old < 2"
    by (auto simp: bumpableCandidates_def canBeBumped_def MAX_BUMP_COUNT_def)
  have differ: "token_id old \<noteq> token_id tok"
    using fresh split oid by auto
  from tryBump_some [OF slot False old_def _ stored differ, of now] i oid
  obtain r where
    run: "tryBumpLowerPriority st tok slotId now =
            Inr (r,
              mutateToken
                (mutateToken
                   (mutateSlot st slotId
                      (slot\<lparr>allocatedTokens :=
                              filter (\<lambda>i. i \<noteq> token_id old) (allocatedTokens slot) @ [token_id tok],
                            currentLoad :=
                              Suc (length (filter (\<lambda>i. i \<noteq> token_id old) (allocatedTokens slot))),
                            waitlist :=
                              sortedIds ((getToken st)(token_id old \<mapsto> ?old'))
                                (waitlist slot @ [token_id old])\<rparr>))
                   (token_id old) ?old')
                (token_id tok)
                (tok\<lparr>token_status := ALLOCATED, token_slotId := Some slotId,
                     allocatedAt := Some now\<rparr>))"
    and ok: "success r"
    by auto
  have waiting: "token_id old \<in> set (sortedIds ((getToken st)(token_id old \<mapsto> ?old'))
                                   (waitlist slot @ [token_id old]))"
    by (rule mem_sortedIds [where t = ?old']) simp_all
  show ?thesis
    using False run ok i oid qual split later waiting differ
    by (simp add: old_def canBeBumped_def MAX_BUMP_COUNT_def) blast
qed

theorem bump_evicts_last_candidate_witness:
  "list_all (\<lambda>(k, t). token_id t = k) (tokens bumpRequestStore)
   \<and> getToken bumpRequestStore (token_id paidToken) = Some paidToken
   \<and> getSlot bumpRequestStore ''slot-doc-1-0900'' = Some twoWalkInsSlot
   \<and> token_id paidToken \<notin> set (allocatedTokens twoWalkInsSlot)
   \<and> token_id (last (bumpableCandidates bumpRequestStore paidToken twoWalkInsSlot)) = ''t2''
   \<and> (\<exists>r st' slot' old before after.
          tryBumpLowerPriority bumpRequestStore paidToken ''slot-doc-1-0900'' 3 = Inr (r, st')
        \<and> success r
        \<and> old = last (bumpableCandidates bumpRequestStore paidToken twoWalkInsSlot)
        \<and> getToken bumpRequestStore (token_id old) = Some old
        \<and> canBump (patientType paidToken) (patientType old) \<and> bumpCount old < 2
        \<and> allocatedTokens twoWalkInsSlot = before @ token_id old # after
        \<and> (\<forall>j\<in>set after. \<forall>t. getToken bumpRequestStore j = Some t \<longrightarrow>
               \<not> (canBump (patientType paidToken) (patientType t) \<and> bumpCount t < 2))
        \<and> getToken st' (token_id old) =
              Some (old\<lparr>token_status := WAITLISTED, token_slotId := None,
                        allocatedAt := None, bumpCount := bumpCount old + 1\<rparr>)
        \<and> getSlot st' ''slot-doc-1-0900'' = Some slot'
        \<and> allocatedTokens slot' =
              filter (\<lambda>i. i \<noteq> token_id old) (allocatedTokens twoWalkInsSlot) @ [token_id paidToken]
        \<and> token_id old \<in> set (waitlist slot')
        \<and> getToken st' (token_id paidToken) =
              Some (paidToken\<lparr>token_status := ALLOCATED, token_slotId := Some ''slot-doc-1-0900'',
                        allocatedAt := Some 3\<rparr>))"
proof -
  have keys: "list_all (\<lambda>(k, t). token_id t = k) (tokens bumpRequestStore)"
    by code_simp
  have stored: "getToken bumpRequestStore (token_id paidToken) = Some paidToken"
    by code_simp
  have slot: "getSlot bumpRequestStore ''slot-doc-1-0900'' = Some twoWalkInsSlot"
    by code_simp
  have fresh: "token_id paidToken \<notin> set (allocatedTokens twoWalkInsSlot)"
    by code_simp
  have evicted: "token_id (last (bumpableCandidates bumpRequestStore paidToken twoWalkInsSlot)) = ''t2''"
    by code_simp
  have some: "bumpableCandidates bumpRequestStore paidToken twoWalkInsSlot \<noteq> []"
    by code_simp
  show ?thesis
    using bump_evicts_last_candidate [OF keys stored slot fresh, of 3] keys stored slot fresh evicted some
    by (simp only: if_False simp_thms)
qed


section \<open>Redistribution\<close>

lemma find_map: "find P (map f xs) = map_option f (find (\<lambda>x. P (f x)) xs)"
  by (induction xs) auto

lemma filter_neq_removeAll: "filter (\<lambda>i. i \<noteq> x) xs = removeAll x xs"
  by (induction xs) auto

lemma hasCapacity_known: "hasCapacity st k \<Longrightarrow> \<exists>s. getSlot st k = Some s"
  by (auto simp: hasCapacity_def split: option.splits)

text \<open>One round of the loop body, for a token the store knows and a target with room.\<close>

lemma redistribute_step:
  assumes src: "getSlot st source = Some src"
    and tgt: "hasCapacity st target"
    and other: "target \<noteq> source"
    and tok: "getToken st tokenId = Some tok"
  shows "\<exists>st3. addTokenToSlot (removeFromWaitlist (removeTokenFromSlot st source tokenId) source tokenId)
                  target tokenId = Inr st3
             \<and> updateToken st3 tokenId (\<lambda>t. t\<lparr>token_slotId := Some target\<rparr>)
                 = moveToken st source target tokenId"
proof -
  obtain tg where tg: "getSlot st target = Some tg"
    using tgt by (auto dest: hasCapacity_known)
  let ?s1 = "src\<lparr>allocatedTokens := filter (\<lambda>i. i \<noteq> tokenId) (allocatedTokens src),
                   currentLoad := length (filter (\<lambda>i. i \<noteq> tokenId) (allocatedTokens src))\<rparr>"
  let ?s2 = "?s1\<lparr>waitlist := filter (\<lambda>i. i \<noteq> tokenId) (waitlist ?s1)\<rparr>"
  let ?st2 = "mutateSlot st source ?s2"
  let ?t3 = "tg\<lparr>allocatedTokens := allocatedTokens tg @ [tokenId],
                  currentLoad := Suc (length (allocatedTokens tg))\<rparr>"
  have r1: "removeTokenFromSlot st source tokenId = mutateSlot st source ?s1"
    using src by (rule removeTokenFromSlot_eq)
  have r2: "removeFromWaitlist (mutateSlot st source ?s1) source tokenId = ?st2"
    using removeFromWaitlist_eq [of "mutateSlot st source ?s1" source ?s1 tokenId] by simp
  have r3: "addTokenToSlot ?st2 target tokenId = Inr (mutateSlot ?st2 target ?t3)"
    using addTokenToSlot_eq [of ?st2 target tg tokenId] tg other by simp
  have r4: "updateToken (mutateSlot ?st2 target ?t3) tokenId (\<lambda>t. t\<lparr>token_slotId := Some target\<rparr>)
              = mutateToken (mutateSlot ?st2 target ?t3) tokenId (tok\<lparr>token_slotId := Some target\<rparr>)"
    using tok by (simp add: updateToken_eq)
  have r5: "mutateToken (mutateSlot ?st2 target ?t3) tokenId (tok\<lparr>token_slotId := Some target\<rparr>)
          = moveToken st source target tokenId"
    using src tg tok by (cases src) (simp add: moveToken_def filter_neq_removeAll)
  have "addTokenToSlot (removeFromWaitlist (removeTokenFromSlot st source tokenId) source tokenId)
          target tokenId = Inr (mutateSlot ?st2 target ?t3)"
    by (simp only: r1 r2 r3)
  moreover have "updateToken (mutateSlot ?st2 target ?t3) tokenId
                   (\<lambda>t. t\<lparr>token_slotId := Some target\<rparr>) = moveToken st source target tokenId"
    by (simp only: r4 r5)
  ultimately show ?thesis by blast
qed

lemma moveToken_slot_known:
  "(getSlot (moveToken st source target tokenId) k = None) = (getSlot st k = None)"
  by (auto simp: moveToken_def split: option.splits)

lemma moveToken_token_known:
  "(getToken (moveToken st source target tokenId) k = None) = (getToken st k = None)"
  by (auto simp: moveToken_def split: option.splits)

lemma redistributeTokens_refines:
  assumes "getSlot st source \<noteq> None"
    and "\<forall>i\<in>set ts. getToken st i \<noteq> None"
    and "\<forall>s\<in>set otherSlots. slot_id s \<noteq> source"
  shows "\<exists>st' r' moved unmoved.
           redistributeTokens source slot otherSlots ts (st, r) = Inr (st', r')
         \<and> firstFitRedistribution source (map slot_id otherSlots) ts st = (moved, unmoved, st')
         \<and> redistributed r' = redistributed r + moved
         \<and> failed r' = failed r + unmoved
         \<and> moved + unmoved = length ts"
  using assms
proof (induction ts arbitrary: st r)
  case Nil
  then show ?case by simp
next
  case (Cons tokenId rest)
  from Cons.prems obtain src tok where
    src: "getSlot st source = Some src" and tok: "getToken st tokenId = Some tok"
    by auto
  show ?case
  proof (cases "find (\<lambda>s. hasCapacity st (slot_id s)) otherSlots")
    case None
    let ?r = "r\<lparr>failed := failed r + 1, details := details r @ [NoSlotFound (patientName tok)]\<rparr>"
    from Cons.IH [of st ?r] Cons.prems obtain st' r' moved unmoved where
      "redistributeTokens source slot otherSlots rest (st, ?r) = Inr (st', r')"
      "firstFitRedistribution source (map slot_id otherSlots) rest st = (moved, unmoved, st')"
      "redistributed r' = redistributed ?r + moved"
      "failed r' = failed ?r + unmoved"
      "moved + unmoved = length rest"
      by auto
    with None tok show ?thesis
      by (simp add: find_map)
  next
    case (Some targetSlot)
    then have room: "hasCapacity st (slot_id targetSlot)" and mem: "targetSlot \<in> set otherSlots"
      by (auto simp: find_Some_iff)
    with Cons.prems have other: "slot_id targetSlot \<noteq> source" by auto
    from redistribute_step [OF src room other tok] obtain st3 where
      st3: "addTokenToSlot (removeFromWaitlist (removeTokenFromSlot st source tokenId) source tokenId)
              (slot_id targetSlot) tokenId = Inr st3"
      and mv: "updateToken st3 tokenId (\<lambda>t. t\<lparr>token_slotId := Some (slot_id targetSlot)\<rparr>)
                 = moveToken st source (slot_id targetSlot) tokenId"
      by blast
    let ?st = "moveToken st source (slot_id targetSlot) tokenId"
    let ?r = "r\<lparr>redistributed := redistributed r + 1,
                 details := details r @ [Moved (patientName tok) (startTime slot)
                                            (startTime targetSlot)]\<rparr>"
    have "getSlot ?st source \<noteq> None" "\<forall>i\<in>set rest. getToken ?st i \<noteq> None"
      using Cons.prems by (simp_all add: moveToken_slot_known moveToken_token_known)
    from Cons.IH [OF this Cons.prems(3), of ?r] obtain st' r' moved unmoved where
      "redistributeTokens source slot otherSlots rest (?st, ?r) = Inr (st', r')"
      "firstFitRedistribution source (map slot_id otherSlots) rest ?st = (moved, unmoved, st')"
      "redistributed r' = redistributed ?r + moved"
      "failed r' = failed ?r + unmoved"
      "moved + unmoved = length rest"
      by blast
    with Some tok st3 mv show ?thesis
      by (simp add: find_map Let_def)
  qed
qed

lemma remaining_moveToken:
  assumes "getSlot st source \<noteq> None" and "hasCapacity st target" and "target \<noteq> source"
    and "getToken st tokenId \<noteq> None"
  shows "remainingTokens (moveToken st source target tokenId) source
           = removeAll tokenId (remainingTokens st source)"
  using assms by (auto simp: moveToken_def remainingTokens_def dest: hasCapacity_known)

lemma length_removeAll_distinct:
  "distinct xs \<Longrightarrow> x \<in> set xs \<Longrightarrow> Suc (length (removeAll x xs)) = length xs"
  by (induction xs) auto

lemma firstFit_remaining:
  assumes "getSlot st source \<noteq> None"
    and "\<forall>i\<in>set ts. getToken st i \<noteq> None"
    and "\<forall>c\<in>set candidates. c \<noteq> source"
    and "distinct (remainingTokens st source)"
    and "set ts \<subseteq> set (remainingTokens st source)"
    and "distinct ts"
    and "firstFitRedistribution source candidates ts st = (moved, unmoved, st')"
  shows "length (remainingTokens st' source) + moved = length (remainingTokens st source)"
  using assms
proof (induction ts arbitrary: st moved unmoved)
  case Nil
  then show ?case by simp
next
  case (Cons tokenId rest)
  show ?case
  proof (cases "find (hasCapacity st) candidates")
    case None
    with Cons.prems(7) obtain u where
      "firstFitRedistribution source candidates rest st = (moved, u, st')"
      by (auto split: prod.splits)
    with Cons.IH [of st moved u] Cons.prems show ?thesis by auto
  next
    case (Some target)
    then have room: "hasCapacity st target" and other: "target \<noteq> source"
      using Cons.prems(3) by (auto simp: find_Some_iff)
    let ?st = "moveToken st source target tokenId"
    from Some Cons.prems(7) obtain m where
      run: "firstFitRedistribution source candidates rest ?st = (m, unmoved, st')"
      and moved: "moved = Suc m"
      by (auto split: prod.splits)
    have rem: "remainingTokens ?st source = removeAll tokenId (remainingTokens st source)"
      using Cons.prems room other by (intro remaining_moveToken) auto
    have "length (remainingTokens st' source) + m = length (remainingTokens ?st source)"
    proof (rule Cons.IH [OF _ _ Cons.prems(3) _ _ _ run])
      show "getSlot ?st source \<noteq> None"
        using Cons.prems(1) by (simp add: moveToken_slot_known)
      show "\<forall>i\<in>set rest. getToken ?st i \<noteq> None"
        using Cons.prems(2) by (simp add: moveToken_token_known)
      show "distinct (remainingTokens ?st source)"
        using Cons.prems(4) by (simp add: rem distinct_removeAll)
      show "set rest \<subseteq> set (remainingTokens ?st source)"
        using Cons.prems(5,6) by (auto simp: rem)
      show "distinct rest"
        using Cons.prems(6) by simp
    qed
    moreover have "Suc (length (removeAll tokenId (remainingTokens st source)))
                     = length (remainingTokens st source)"
      using Cons.prems(4,5) by (intro length_removeAll_distinct) auto
    ultimately show ?thesis
      using moved rem by simp
  qed
qed

lemma firstFit_slot_known:
  "firstFitRedistribution source candidates ts st = (moved, unmoved, st') \<Longrightarrow>
     (getSlot st' k = None) = (getSlot st k = None)"
proof (induction ts arbitrary: st moved unmoved)
  case Nil
  then show ?case by simp
next
  case (Cons tokenId rest)
  then show ?case
    by (cases "find (hasCapacity st) candidates")
       (auto split: prod.splits simp: moveToken_slot_known)
qed

text \<open>
  C8. For a known slot whose tokens are all stored, each listed once: the call does not
  throw; it processes the allocated tokens, then the waitlisted ones, in list order, and
  does exactly what first-fit redistribution over the doctor's other non-CLOSED slots (in
  store order) does: a token goes to the first candidate with spare capacity at the moment
  it is processed, or is counted as failed. The counts returned are the numbers of moved
  and unmoved tokens, they add up to the number of tokens, the tokens left in the source
  slot are as many as the failed count, and the source slot ends CLOSED whatever failed.
  The witness is scenario E: 2 redistributed, 1 failed, source CLOSED.
\<close>

theorem redistribution_first_fit:
  assumes slot: "getSlot st slotId = Some slot"
    and stored: "list_all (\<lambda>i. getToken st i \<noteq> None) (allocatedTokens slot @ waitlist slot)"
    and once: "distinct (allocatedTokens slot @ waitlist slot)"
  shows "\<exists>r st1 slot'.
           redistributePatientsFromSlot st slotId
             = Inr (r, updateSlot st1 slotId (\<lambda>s. s\<lparr>slot_status := CLOSED\<rparr>))
         \<and> firstFitRedistribution slotId (otherOpenSlots st slotId)
               (allocatedTokens slot @ waitlist slot) st = (redistributed r, failed r, st1)
         \<and> redistributed r + failed r = length (allocatedTokens slot @ waitlist slot)
         \<and> getSlot (updateSlot st1 slotId (\<lambda>s. s\<lparr>slot_status := CLOSED\<rparr>)) slotId = Some slot'
         \<and> slot_status slot' = CLOSED
         \<and> length (allocatedTokens slot' @ waitlist slot') = failed r"
proof -
  let ?ts = "allocatedTokens slot @ waitlist slot"
  let ?others = "filter (\<lambda>s. slot_id s \<noteq> slotId \<and> slot_status s \<noteq> CLOSED)
                   (getSlotsByDoctor st (slot_doctorId slot))"
  let ?r0 = "\<lparr>redistributed = 0, failed = 0, details = []\<rparr>"
  have cands: "map slot_id ?others = otherOpenSlots st slotId"
    using slot by (simp add: otherOpenSlots_def getSlotsByDoctor_def conj_commute conj_left_commute)
  have known: "\<forall>i\<in>set ?ts. getToken st i \<noteq> None"
    using stored by (simp add: list_all_iff)
  have "\<exists>st' r' moved unmoved.
          redistributeTokens slotId slot ?others ?ts (st, ?r0) = Inr (st', r')
        \<and> firstFitRedistribution slotId (map slot_id ?others) ?ts st = (moved, unmoved, st')
        \<and> redistributed r' = redistributed ?r0 + moved
        \<and> failed r' = failed ?r0 + unmoved
        \<and> moved + unmoved = length ?ts"
    using slot known by (intro redistributeTokens_refines) auto
  then obtain st1 r where
    loop: "redistributeTokens slotId slot ?others ?ts (st, ?r0) = Inr (st1, r)"
    and spec: "firstFitRedistribution slotId (otherOpenSlots st slotId) ?ts st
                 = (redistributed r, failed r, st1)"
    and total: "redistributed r + failed r = length ?ts"
    by (auto simp: cands)
  have "length (remainingTokens st1 slotId) + redistributed r = length (remainingTokens st slotId)"
  proof (rule firstFit_remaining [OF _ known _ _ _ _ spec])
    show "getSlot st slotId \<noteq> None" using slot by simp
    show "\<forall>c\<in>set (otherOpenSlots st slotId). c \<noteq> slotId"
      using slot by (auto simp: otherOpenSlots_def)
    show "distinct (remainingTokens st slotId)"
      using slot once by (simp add: remainingTokens_def)
    show "set ?ts \<subseteq> set (remainingTokens st slotId)"
      using slot by (simp add: remainingTokens_def)
    show "distinct ?ts" by (rule once)
  qed
  then have left: "length (remainingTokens st1 slotId) = failed r"
    using total slot by (simp add: remainingTokens_def)
  have "getSlot st1 slotId \<noteq> None"
    using firstFit_slot_known [OF spec, of slotId] slot by simp
  then obtain s1 where s1: "getSlot st1 slotId = Some s1" by auto
  have run: "redistributePatientsFromSlot st slotId
               = Inr (r, updateSlot st1 slotId (\<lambda>s. s\<lparr>slot_status := CLOSED\<rparr>))"
    using slot loop by (simp add: redistributePatientsFromSlot_def Let_def)
  have closed: "getSlot (updateSlot st1 slotId (\<lambda>s. s\<lparr>slot_status := CLOSED\<rparr>)) slotId
                  = Some (s1\<lparr>slot_status := CLOSED\<rparr>)"
    using s1 by (simp add: updateSlot_eq)
  show ?thesis
    using run spec total closed left s1 by (simp add: remainingTokens_def)
qed

theorem redistribution_first_fit_witness:
  "getSlot scenarioE ''slot-doc-1-0900'' = Some scenarioESlot
   \<and> list_all (\<lambda>i. getToken scenarioE i \<noteq> None)
        (allocatedTokens scenarioESlot @ waitlist scenarioESlot)
   \<and> distinct (allocatedTokens scenarioESlot @ waitlist scenarioESlot)
   \<and> (\<exists>r st1 slot'.
          redistributePatientsFromSlot scenarioE ''slot-doc-1-0900''
            = Inr (r, updateSlot st1 ''slot-doc-1-0900'' (\<lambda>s. s\<lparr>slot_status := CLOSED\<rparr>))
        \<and> firstFitRedistribution ''slot-doc-1-0900'' (otherOpenSlots scenarioE ''slot-doc-1-0900'')
              (allocatedTokens scenarioESlot @ waitlist scenarioESlot) scenarioE
            = (redistributed r, failed r, st1)
        \<and> redistributed r + failed r = length (allocatedTokens scenarioESlot @ waitlist scenarioESlot)
        \<and> getSlot (updateSlot st1 ''slot-doc-1-0900'' (\<lambda>s. s\<lparr>slot_status := CLOSED\<rparr>))
              ''slot-doc-1-0900'' = Some slot'
        \<and> slot_status slot' = CLOSED
        \<and> length (allocatedTokens slot' @ waitlist slot') = failed r)
   \<and> map_option redistributed
        (resultOf (redistributePatientsFromSlot scenarioE ''slot-doc-1-0900'')) = Some 2
   \<and> map_option failed
        (resultOf (redistributePatientsFromSlot scenarioE ''slot-doc-1-0900'')) = Some 1
   \<and> map_option slot_status
        (getSlot (storeAfter scenarioE (redistributePatientsFromSlot scenarioE ''slot-doc-1-0900''))
           ''slot-doc-1-0900'') = Some CLOSED
   \<and> map_option allocatedTokens
        (getSlot (storeAfter scenarioE (redistributePatientsFromSlot scenarioE ''slot-doc-1-0900''))
           ''slot-doc-1-0900'') = Some [''t3'']
   \<and> map_option allocatedTokens
        (getSlot (storeAfter scenarioE (redistributePatientsFromSlot scenarioE ''slot-doc-1-0900''))
           ''slot-doc-1-1000'') = Some [''t1'', ''t2'']"
proof -
  have slot: "getSlot scenarioE ''slot-doc-1-0900'' = Some scenarioESlot"
    by code_simp
  have stored: "list_all (\<lambda>i. getToken scenarioE i \<noteq> None)
                  (allocatedTokens scenarioESlot @ waitlist scenarioESlot)"
    by code_simp
  have once: "distinct (allocatedTokens scenarioESlot @ waitlist scenarioESlot)"
    by code_simp
  have counts:
    "map_option redistributed
        (resultOf (redistributePatientsFromSlot scenarioE ''slot-doc-1-0900'')) = Some 2"
    "map_option failed
        (resultOf (redistributePatientsFromSlot scenarioE ''slot-doc-1-0900'')) = Some 1"
    by code_simp+
  have after:
    "map_option slot_status
        (getSlot (storeAfter scenarioE (redistributePatientsFromSlot scenarioE ''slot-doc-1-0900''))
           ''slot-doc-1-0900'') = Some CLOSED"
    "map_option allocatedTokens
        (getSlot (storeAfter scenarioE (redistributePatientsFromSlot scenarioE ''slot-doc-1-0900''))
           ''slot-doc-1-0900'') = Some [''t3'']"
    "map_option allocatedTokens
        (getSlot (storeAfter scenarioE (redistributePatientsFromSlot scenarioE ''slot-doc-1-0900''))
           ''slot-doc-1-1000'') = Some [''t1'', ''t2'']"
    by code_simp+
  show ?thesis
    using redistribution_first_fit [OF slot stored once] slot stored once counts after
    by (simp only: simp_thms)
qed


section \<open>Promotion\<close>

lemma consistent_wellFormed: "consistent st \<Longrightarrow> wellFormed st"
  unfolding consistent_def wellFormed_def list_all_iff getSlot_def getToken_def
  by (auto dest!: map_of_SomeD) blast+

lemma promote_head:
  assumes slot: "getSlot st sid = Some s"
    and wl: "waitlist s = h # rest"
    and ht: "getToken st h = Some ht"
    and hid: "token_id ht = h"
    and fresh: "h \<notin> set rest"
  shows "promoteFromWaitlist st sid now =
           Inr (Some (ht\<lparr>token_status := ALLOCATED, token_slotId := Some sid,
                          allocatedAt := Some now\<rparr>),
                mutateToken
                  (mutateSlot st sid
                     (s\<lparr>waitlist := rest,
                        allocatedTokens := allocatedTokens s @ [h],
                        currentLoad := Suc (length (allocatedTokens s))\<rparr>))
                  h (ht\<lparr>token_status := ALLOCATED, token_slotId := Some sid,
                         allocatedAt := Some now\<rparr>))"
proof -
  let ?s1 = "s\<lparr>waitlist := filter (\<lambda>i. i \<noteq> h) (waitlist s)\<rparr>"
  let ?st1 = "mutateSlot st sid ?s1"
  let ?s2 = "?s1\<lparr>allocatedTokens := allocatedTokens ?s1 @ [h],
                   currentLoad := Suc (length (allocatedTokens ?s1))\<rparr>"
  let ?st2 = "mutateSlot ?st1 sid ?s2"
  let ?ht = "ht\<lparr>token_status := ALLOCATED, token_slotId := Some sid, allocatedAt := Some now\<rparr>"
  have nxt: "getNextFromWaitlist st sid = Some ht"
    using slot wl ht by (simp add: getNextFromWaitlist_def)
  have r1: "removeFromWaitlist st sid (token_id ht) = ?st1"
    using slot by (simp add: hid removeFromWaitlist_eq)
  have r2: "addTokenToSlot ?st1 sid (token_id ht) = Inr ?st2"
    using addTokenToSlot_eq [of ?st1 sid ?s1 h] by (simp add: hid)
  have r3: "updateToken ?st2 (token_id ht)
              (\<lambda>t. t\<lparr>token_status := ALLOCATED, token_slotId := Some sid, allocatedAt := Some now\<rparr>)
            = mutateToken ?st2 h ?ht"
    using ht by (simp add: hid updateToken_eq)
  have r4: "getToken (mutateToken ?st2 h ?ht) (token_id ht) = Some ?ht"
    by (simp add: hid)
  have "promoteFromWaitlist st sid now = Inr (Some ?ht, mutateToken ?st2 h ?ht)"
    unfolding promoteFromWaitlist_def
    by (simp only: nxt option.case Let_def r1 r2 sum.case r3 r4)
  moreover have "filter (\<lambda>i. i \<noteq> h) (waitlist s) = rest"
    using wl fresh by (auto simp: filter_id_conv)
  ultimately show ?thesis by (cases s) simp
qed

lemma sorted_head_least:
  assumes "waitlistSorted lookup (h # rest)" and "lookup h = Some ht"
    and "x \<in> set rest" and "lookup x = Some xt"
  shows "tokenOrder ht xt"
proof -
  have "xt \<in> set (List.map_filter lookup rest)"
    using assms(3,4) by (auto simp: set_map_filter)
  then show ?thesis
    using assms(1,2) by (simp add: waitlistSorted_def List.map_filter_simps)
qed

text \<open>
  C5. In a consistent store, take an ALLOCATED token whose slot has a non-empty waitlist
  \<open>h # rest\<close>. Both \<^verbatim>\<open>cancelToken\<close> and \<^verbatim>\<open>markNoShow\<close> return normally, and then: the head
  \<open>h\<close> is a stored token that stands before every other waitlisted token in the priority
  order (score descending, creation time ascending); \<open>h\<close> is ALLOCATED in that same slot;
  the token itself is CANCELLED, respectively NO_SHOW; no other token is touched, so
  exactly one promotion took place; the slot's allocated list is the old one without the
  token and with \<open>h\<close> at its end, its waitlist is \<open>rest\<close>; the load is what it was before
  and equals the length of the allocated list; no other slot is touched.
\<close>

theorem promotion_keeps_load:
  assumes wf: "wellFormed st"
    and tok: "getToken st tokenId = Some tok"
    and allocated: "token_status tok = ALLOCATED"
    and ref: "token_slotId tok = Some sid"
    and slot: "getSlot st sid = Some slot"
    and wl: "waitlist slot = h # rest"
  shows "\<forall>(operation, final) \<in> {(cancelToken, CANCELLED), (markNoShow, NO_SHOW)}.
           \<exists>r st' ht slot'.
             operation st tokenId now = Inr (r, st')
           \<and> getToken st h = Some ht
           \<and> (\<forall>x\<in>set rest. \<forall>xt. getToken st x = Some xt \<longrightarrow> tokenOrder ht xt)
           \<and> getToken st' h = Some (ht\<lparr>token_status := ALLOCATED, token_slotId := Some sid,
                                          allocatedAt := Some now\<rparr>)
           \<and> getToken st' tokenId = Some (tok\<lparr>token_status := final\<rparr>)
           \<and> (\<forall>k. k \<noteq> h \<longrightarrow> k \<noteq> tokenId \<longrightarrow> getToken st' k = getToken st k)
           \<and> getSlot st' sid = Some slot'
           \<and> allocatedTokens slot' = removeAll tokenId (allocatedTokens slot) @ [h]
           \<and> waitlist slot' = rest
           \<and> currentLoad slot' = currentLoad slot
           \<and> currentLoad slot' = length (allocatedTokens slot')
           \<and> (\<forall>k. k \<noteq> sid \<longrightarrow> getSlot st' k = getSlot st k)"
proof -
  have sok: "slotOk st sid slot" and tokOk: "tokenOk st tokenId tok"
    using wf slot tok by (auto simp: wellFormed_def)
  from sok wl obtain ht where ht: "getToken st h = Some ht"
    by (auto simp: slotOk_def)
  then have hid: "token_id ht = h"
    using wf by (auto simp: wellFormed_def tokenOk_def)
  have truthy: "truthy (Some sid)"
    using sok by (simp add: slotOk_def)
  have seated: "tokenId \<in> set (allocatedTokens slot)"
    using tokOk allocated ref slot by (auto simp: tokenOk_def)
  have dist: "distinct (allocatedTokens slot @ h # rest)"
    using sok wl by (simp add: slotOk_def)
  then have fresh: "h \<notin> set rest" and differ: "h \<noteq> tokenId"
    using seated by auto
  have load: "currentLoad slot = length (allocatedTokens slot)"
    using sok by (simp add: slotOk_def)
  have once: "Suc (length (removeAll tokenId (allocatedTokens slot))) = length (allocatedTokens slot)"
    using dist seated by (intro length_removeAll_distinct) auto
  have least: "\<forall>x\<in>set rest. \<forall>xt. getToken st x = Some xt \<longrightarrow> tokenOrder ht xt"
    using sok wl ht by (auto simp: slotOk_def intro: sorted_head_least)
  let ?s1 = "slot\<lparr>allocatedTokens := filter (\<lambda>i. i \<noteq> tokenId) (allocatedTokens slot),
                    currentLoad := length (filter (\<lambda>i. i \<noteq> tokenId) (allocatedTokens slot))\<rparr>"
  let ?ht = "ht\<lparr>token_status := ALLOCATED, token_slotId := Some sid, allocatedAt := Some now\<rparr>"
  let ?s2 = "?s1\<lparr>waitlist := rest, allocatedTokens := allocatedTokens ?s1 @ [h],
                   currentLoad := Suc (length (allocatedTokens ?s1))\<rparr>"
  have step: "\<exists>r. promoteFromWaitlist
                 (removeTokenFromSlot (updateToken st tokenId (\<lambda>t. t\<lparr>token_status := final\<rparr>))
                    sid tokenId) sid now
               = Inr (r, mutateToken
                           (mutateSlot (mutateToken st tokenId (tok\<lparr>token_status := final\<rparr>)) sid ?s2)
                           h ?ht)" for final
  proof -
    let ?st1 = "mutateToken st tokenId (tok\<lparr>token_status := final\<rparr>)"
    have u: "updateToken st tokenId (\<lambda>t. t\<lparr>token_status := final\<rparr>) = ?st1"
      using tok by (simp add: updateToken_eq)
    have r: "removeTokenFromSlot ?st1 sid tokenId = mutateSlot ?st1 sid ?s1"
      using removeTokenFromSlot_eq [of ?st1 sid slot tokenId] slot by simp
    have p: "promoteFromWaitlist (mutateSlot ?st1 sid ?s1) sid now
               = Inr (Some ?ht, mutateToken (mutateSlot (mutateSlot ?st1 sid ?s1) sid ?s2) h ?ht)"
      using promote_head [of "mutateSlot ?st1 sid ?s1" sid ?s1 h rest ht now]
        wl ht hid fresh differ by simp
    show ?thesis
      by (simp only: u r p mutateSlot_twice) blast
  qed
  have cancel: "\<exists>r. cancelToken st tokenId now
                  = Inr (r, mutateToken
                              (mutateSlot (mutateToken st tokenId (tok\<lparr>token_status := CANCELLED\<rparr>)) sid ?s2)
                              h ?ht)"
    using step [of CANCELLED] tok allocated ref truthy
    by (auto simp: cancelToken_def Let_def)
  have noShow: "\<exists>r. markNoShow st tokenId now
                  = Inr (r, mutateToken
                              (mutateSlot (mutateToken st tokenId (tok\<lparr>token_status := NO_SHOW\<rparr>)) sid ?s2)
                              h ?ht)"
    using step [of NO_SHOW] tok ref truthy
    by (auto simp: markNoShow_def Let_def)
  have after: "\<exists>r st' ht slot'.
      operation st tokenId now = Inr (r, st')
    \<and> getToken st h = Some ht
    \<and> (\<forall>x\<in>set rest. \<forall>xt. getToken st x = Some xt \<longrightarrow> tokenOrder ht xt)
    \<and> getToken st' h = Some (ht\<lparr>token_status := ALLOCATED, token_slotId := Some sid,
                                   allocatedAt := Some now\<rparr>)
    \<and> getToken st' tokenId = Some (tok\<lparr>token_status := final\<rparr>)
    \<and> (\<forall>k. k \<noteq> h \<longrightarrow> k \<noteq> tokenId \<longrightarrow> getToken st' k = getToken st k)
    \<and> getSlot st' sid = Some slot'
    \<and> allocatedTokens slot' = removeAll tokenId (allocatedTokens slot) @ [h]
    \<and> waitlist slot' = rest
    \<and> currentLoad slot' = currentLoad slot
    \<and> currentLoad slot' = length (allocatedTokens slot')
    \<and> (\<forall>k. k \<noteq> sid \<longrightarrow> getSlot st' k = getSlot st k)"
    if run: "\<exists>r. operation st tokenId now
               = Inr (r, mutateToken
                           (mutateSlot (mutateToken st tokenId (tok\<lparr>token_status := final\<rparr>)) sid ?s2)
                           h ?ht)"
    for operation :: "store \<Rightarrow> string \<Rightarrow> int \<Rightarrow> error + (allocationResult \<times> store)" and final
  proof -
    let ?st' = "mutateToken
                  (mutateSlot (mutateToken st tokenId (tok\<lparr>token_status := final\<rparr>)) sid ?s2)
                  h ?ht"
    from run obtain r where r: "operation st tokenId now = Inr (r, ?st')" by blast
    have lookups: "getToken ?st' = (getToken st)(tokenId \<mapsto> tok\<lparr>token_status := final\<rparr>, h \<mapsto> ?ht)"
      "getSlot ?st' = (getSlot st)(sid \<mapsto> ?s2)"
      by simp_all
    have lists: "allocatedTokens ?s2 = removeAll tokenId (allocatedTokens slot) @ [h]"
      "waitlist ?s2 = rest"
      "currentLoad ?s2 = Suc (length (removeAll tokenId (allocatedTokens slot)))"
      by (simp_all add: filter_neq_removeAll)
    show ?thesis
      apply (rule exI [of _ r])
      apply (rule exI [of _ ?st'])
      apply (rule exI [of _ ht])
      apply (rule exI [of _ ?s2])
      apply (simp only: r lookups lists)
      using ht least differ load once apply simp
      done
  qed
  show ?thesis
    using after [of cancelToken CANCELLED, OF cancel] after [of markNoShow NO_SHOW, OF noShow]
    by simp
qed

theorem promotion_keeps_load_witness:
  "wellFormed scenarioB
   \<and> getToken scenarioB ''t3'' = Some seatedPaidToken
   \<and> token_status seatedPaidToken = ALLOCATED
   \<and> token_slotId seatedPaidToken = Some ''slot-doc-1-0900''
   \<and> getSlot scenarioB ''slot-doc-1-0900'' = Some overflowSlot
   \<and> waitlist overflowSlot = ''t2'' # []
   \<and> (\<exists>r st' ht slot'.
          cancelToken scenarioB ''t3'' 5 = Inr (r, st')
        \<and> getToken scenarioB ''t2'' = Some ht
        \<and> getToken st' ''t2'' = Some (ht\<lparr>token_status := ALLOCATED,
                                          token_slotId := Some ''slot-doc-1-0900'',
                                          allocatedAt := Some 5\<rparr>)
        \<and> getToken st' ''t3'' = Some (seatedPaidToken\<lparr>token_status := CANCELLED\<rparr>)
        \<and> getSlot st' ''slot-doc-1-0900'' = Some slot'
        \<and> allocatedTokens slot' = removeAll ''t3'' (allocatedTokens overflowSlot) @ [''t2'']
        \<and> waitlist slot' = []
        \<and> currentLoad slot' = currentLoad overflowSlot)
   \<and> (\<exists>r st' ht slot'.
          markNoShow scenarioB ''t3'' 5 = Inr (r, st')
        \<and> getToken scenarioB ''t2'' = Some ht
        \<and> getToken st' ''t2'' = Some (ht\<lparr>token_status := ALLOCATED,
                                          token_slotId := Some ''slot-doc-1-0900'',
                                          allocatedAt := Some 5\<rparr>)
        \<and> getToken st' ''t3'' = Some (seatedPaidToken\<lparr>token_status := NO_SHOW\<rparr>)
        \<and> getSlot st' ''slot-doc-1-0900'' = Some slot'
        \<and> allocatedTokens slot' = removeAll ''t3'' (allocatedTokens overflowSlot) @ [''t2'']
        \<and> waitlist slot' = []
        \<and> currentLoad slot' = currentLoad overflowSlot)
   \<and> currentLoad overflowSlot = 3
   \<and> map_option currentLoad
        (getSlot (storeAfter scenarioB (cancelToken scenarioB ''t3'' 5)) ''slot-doc-1-0900'')
       = Some 3"
proof -
  have "consistent scenarioB" by code_simp
  then have wf: "wellFormed scenarioB" by (rule consistent_wellFormed)
  have tok: "getToken scenarioB ''t3'' = Some seatedPaidToken" by code_simp
  have allocated: "token_status seatedPaidToken = ALLOCATED" by code_simp
  have ref: "token_slotId seatedPaidToken = Some ''slot-doc-1-0900''" by code_simp
  have slot: "getSlot scenarioB ''slot-doc-1-0900'' = Some overflowSlot" by code_simp
  have wl: "waitlist overflowSlot = ''t2'' # []" by code_simp
  have loads: "currentLoad overflowSlot = 3"
    "map_option currentLoad
        (getSlot (storeAfter scenarioB (cancelToken scenarioB ''t3'' 5)) ''slot-doc-1-0900'')
       = Some 3"
    by code_simp+
  note th = promotion_keeps_load [OF wf tok allocated ref slot wl, of 5]
  have "case (cancelToken, CANCELLED) of (operation, final) \<Rightarrow>
          \<exists>r st' ht slot'.
             operation scenarioB ''t3'' 5 = Inr (r, st')
           \<and> getToken scenarioB ''t2'' = Some ht
           \<and> (\<forall>x\<in>set []. \<forall>xt. getToken scenarioB x = Some xt \<longrightarrow> tokenOrder ht xt)
           \<and> getToken st' ''t2'' = Some (ht\<lparr>token_status := ALLOCATED,
                                             token_slotId := Some ''slot-doc-1-0900'',
                                             allocatedAt := Some 5\<rparr>)
           \<and> getToken st' ''t3'' = Some (seatedPaidToken\<lparr>token_status := final\<rparr>)
           \<and> (\<forall>k. k \<noteq> ''t2'' \<longrightarrow> k \<noteq> ''t3'' \<longrightarrow> getToken st' k = getToken scenarioB k)
           \<and> getSlot st' ''slot-doc-1-0900'' = Some slot'
           \<and> allocatedTokens slot' = removeAll ''t3'' (allocatedTokens overflowSlot) @ [''t2'']
           \<and> waitlist slot' = []
           \<and> currentLoad slot' = currentLoad overflowSlot
           \<and> currentLoad slot' = length (allocatedTokens slot')
           \<and> (\<forall>k. k \<noteq> ''slot-doc-1-0900'' \<longrightarrow> getSlot st' k = getSlot scenarioB k)"
    using th by (rule bspec) simp
  then obtain r1 st1 ht1 slot1 where c:
    "cancelToken scenarioB ''t3'' 5 = Inr (r1, st1)"
    "getToken scenarioB ''t2'' = Some ht1"
    "getToken st1 ''t2'' = Some (ht1\<lparr>token_status := ALLOCATED,
                                       token_slotId := Some ''slot-doc-1-0900'',
                                       allocatedAt := Some 5\<rparr>)"
    "getToken st1 ''t3'' = Some (seatedPaidToken\<lparr>token_status := CANCELLED\<rparr>)"
    "getSlot st1 ''slot-doc-1-0900'' = Some slot1"
    "allocatedTokens slot1 = removeAll ''t3'' (allocatedTokens overflowSlot) @ [''t2'']"
    "waitlist slot1 = []"
    "currentLoad slot1 = currentLoad overflowSlot"
    unfolding prod.case by (elim exE conjE) (rule that; assumption)
  have "case (markNoShow, NO_SHOW) of (operation, final) \<Rightarrow>
          \<exists>r st' ht slot'.
             operation scenarioB ''t3'' 5 = Inr (r, st')
           \<and> getToken scenarioB ''t2'' = Some ht
           \<and> (\<forall>x\<in>set []. \<forall>xt. getToken scenarioB x = Some xt \<longrightarrow> tokenOrder ht xt)
           \<and> getToken st' ''t2'' = Some (ht\<lparr>token_status := ALLOCATED,
                                             token_slotId := Some ''slot-doc-1-0900'',
                                             allocatedAt := Some 5\<rparr>)
           \<and> getToken st' ''t3'' = Some (seatedPaidToken\<lparr>token_status := final\<rparr>)
           \<and> (\<forall>k. k \<noteq> ''t2'' \<longrightarrow> k \<noteq> ''t3'' \<longrightarrow> getToken st' k = getToken scenarioB k)
           \<and> getSlot st' ''slot-doc-1-0900'' = Some slot'
           \<and> allocatedTokens slot' = removeAll ''t3'' (allocatedTokens overflowSlot) @ [''t2'']
           \<and> waitlist slot' = []
           \<and> currentLoad slot' = currentLoad overflowSlot
           \<and> currentLoad slot' = length (allocatedTokens slot')
           \<and> (\<forall>k. k \<noteq> ''slot-doc-1-0900'' \<longrightarrow> getSlot st' k = getSlot scenarioB k)"
    using th by (rule bspec) simp
  then obtain r2 st2 ht2 slot2 where n:
    "markNoShow scenarioB ''t3'' 5 = Inr (r2, st2)"
    "getToken scenarioB ''t2'' = Some ht2"
    "getToken st2 ''t2'' = Some (ht2\<lparr>token_status := ALLOCATED,
                                       token_slotId := Some ''slot-doc-1-0900'',
                                       allocatedAt := Some 5\<rparr>)"
    "getToken st2 ''t3'' = Some (seatedPaidToken\<lparr>token_status := NO_SHOW\<rparr>)"
    "getSlot st2 ''slot-doc-1-0900'' = Some slot2"
    "allocatedTokens slot2 = removeAll ''t3'' (allocatedTokens overflowSlot) @ [''t2'']"
    "waitlist slot2 = []"
    "currentLoad slot2 = currentLoad overflowSlot"
    unfolding prod.case by (elim exE conjE) (rule that; assumption)
  have concl1: "\<exists>r st' ht slot'.
          cancelToken scenarioB ''t3'' 5 = Inr (r, st')
        \<and> getToken scenarioB ''t2'' = Some ht
        \<and> getToken st' ''t2'' = Some (ht\<lparr>token_status := ALLOCATED,
                                          token_slotId := Some ''slot-doc-1-0900'',
                                          allocatedAt := Some 5\<rparr>)
        \<and> getToken st' ''t3'' = Some (seatedPaidToken\<lparr>token_status := CANCELLED\<rparr>)
        \<and> getSlot st' ''slot-doc-1-0900'' = Some slot'
        \<and> allocatedTokens slot' = removeAll ''t3'' (allocatedTokens overflowSlot) @ [''t2'']
        \<and> waitlist slot' = []
        \<and> currentLoad slot' = currentLoad overflowSlot"
    by (intro exI conjI) (rule c)+
  have concl2: "\<exists>r st' ht slot'.
          markNoShow scenarioB ''t3'' 5 = Inr (r, st')
        \<and> getToken scenarioB ''t2'' = Some ht
        \<and> getToken st' ''t2'' = Some (ht\<lparr>token_status := ALLOCATED,
                                          token_slotId := Some ''slot-doc-1-0900'',
                                          allocatedAt := Some 5\<rparr>)
        \<and> getToken st' ''t3'' = Some (seatedPaidToken\<lparr>token_status := NO_SHOW\<rparr>)
        \<and> getSlot st' ''slot-doc-1-0900'' = Some slot'
        \<and> allocatedTokens slot' = removeAll ''t3'' (allocatedTokens overflowSlot) @ [''t2'']
        \<and> waitlist slot' = []
        \<and> currentLoad slot' = currentLoad overflowSlot"
    by (intro exI conjI) (rule n)+
  note concl = concl1 concl2
  show ?thesis
    using wf tok allocated ref slot wl loads concl by (simp only: simp_thms)
qed


section \<open>Consistency is kept\<close>

lemma tokenOrder_sortKey: "sortKey a = sortKey a' \<Longrightarrow> sortKey b = sortKey b' \<Longrightarrow>
    tokenOrder a b = tokenOrder a' b'"
  by (simp add: tokenOrder_def sortKey_def)

lemma sorted_wrt_same_keys:
  "map sortKey xs = map sortKey ys \<Longrightarrow> sorted_wrt tokenOrder xs = sorted_wrt tokenOrder ys"
proof (induction xs arbitrary: ys)
  case Nil
  then show ?case by simp
next
  case (Cons x xs)
  then obtain y ys' where ys: "ys = y # ys'" "sortKey x = sortKey y" "map sortKey xs = map sortKey ys'"
    by (cases ys) auto
  have "(\<forall>a\<in>set xs. tokenOrder x a) = (\<forall>b\<in>set ys'. tokenOrder y b)"
  proof -
    have "(\<forall>a\<in>set xs. tokenOrder x a) = (\<forall>k\<in>set (map sortKey xs). \<forall>a. sortKey a = k \<longrightarrow> tokenOrder x a)"
      by (auto dest: tokenOrder_sortKey [OF refl, of _ _ x])
    also have "\<dots> = (\<forall>k\<in>set (map sortKey ys'). \<forall>a. sortKey a = k \<longrightarrow> tokenOrder x a)"
      by (simp only: ys(3))
    also have "\<dots> = (\<forall>b\<in>set ys'. tokenOrder y b)"
      using ys(2) by (auto dest: tokenOrder_sortKey [of x y])
    finally show ?thesis .
  qed
  with Cons.IH [OF ys(3)] ys(1) show ?case by simp
qed

lemma map_filter_same_keys:
  assumes "\<And>i. i \<in> set ids \<Longrightarrow> map_option sortKey (f i) = map_option sortKey (g i)"
  shows "map sortKey (List.map_filter f ids) = map sortKey (List.map_filter g ids)"
  using assms
proof (induction ids)
  case Nil
  then show ?case by (simp add: List.map_filter_simps)
next
  case (Cons i ids)
  from Cons.prems [of i] have "map_option sortKey (f i) = map_option sortKey (g i)" by simp
  moreover have "map sortKey (List.map_filter f ids) = map sortKey (List.map_filter g ids)"
    using Cons.prems by (intro Cons.IH) simp
  ultimately show ?case
    by (cases "f i"; cases "g i") (simp_all add: List.map_filter_simps)
qed

lemma waitlistSorted_frame:
  assumes "\<And>i. i \<in> set ids \<Longrightarrow> map_option sortKey (f i) = map_option sortKey (g i)"
  shows "waitlistSorted f ids = waitlistSorted g ids"
  unfolding waitlistSorted_def
  by (rule sorted_wrt_same_keys) (rule map_filter_same_keys, rule assms)

lemma slotOk_frame:
  assumes "slotOk st k s"
    and "\<And>i. i \<in> set (allocatedTokens s @ waitlist s) \<Longrightarrow>
           map_option sortKey (getToken st' i) = map_option sortKey (getToken st i)"
  shows "slotOk st' k s"
proof -
  have known: "getToken st' i \<noteq> None" if "i \<in> set (allocatedTokens s @ waitlist s)" for i
  proof -
    have "getToken st i \<noteq> None" using assms(1) that by (auto simp: slotOk_def)
    with assms(2) [OF that] show ?thesis by (cases "getToken st' i") auto
  qed
  have "waitlistSorted (getToken st') (waitlist s) = waitlistSorted (getToken st) (waitlist s)"
    by (rule waitlistSorted_frame) (rule assms(2), simp)
  with assms(1) known show ?thesis
    by (simp add: slotOk_def)
qed

lemma wf_slot: "wellFormed st \<Longrightarrow> getSlot st k = Some s \<Longrightarrow> slotOk st k s"
  by (simp add: wellFormed_def)

lemma wf_token: "wellFormed st \<Longrightarrow> getToken st k = Some t \<Longrightarrow> tokenOk st k t"
  by (simp add: wellFormed_def)

lemma wf_disjoint:
  "wellFormed st \<Longrightarrow> k \<noteq> k' \<Longrightarrow> getSlot st k = Some s \<Longrightarrow> getSlot st k' = Some s' \<Longrightarrow>
     i \<in> set (allocatedTokens s @ waitlist s) \<Longrightarrow> i \<notin> set (allocatedTokens s' @ waitlist s')"
  unfolding wellFormed_def by blast

lemma wellFormedI:
  assumes "\<And>k s. getSlot st k = Some s \<Longrightarrow> slotOk st k s"
    and "\<And>k t. getToken st k = Some t \<Longrightarrow> tokenOk st k t"
    and "\<And>k k' s s' i. k \<noteq> k' \<Longrightarrow> getSlot st k = Some s \<Longrightarrow> getSlot st k' = Some s' \<Longrightarrow>
           i \<in> set (allocatedTokens s @ waitlist s) \<Longrightarrow> i \<notin> set (allocatedTokens s' @ waitlist s')"
  shows "wellFormed st"
  unfolding wellFormed_def using assms by blast

lemma wf_listed_stored:
  "wellFormed st \<Longrightarrow> getSlot st k = Some s \<Longrightarrow> i \<in> set (allocatedTokens s @ waitlist s) \<Longrightarrow>
     getToken st i \<noteq> None"
  by (auto dest!: wf_slot simp: slotOk_def)

lemma tokenOk_seated:
  "tokenOk st k t \<Longrightarrow> token_status t = ALLOCATED \<Longrightarrow>
     \<exists>sid s. token_slotId t = Some sid \<and> getSlot st sid = Some s \<and> k \<in> set (allocatedTokens s)"
  by (auto simp: tokenOk_def split: option.splits)

lemma tokenOkI:
  "token_id t = k \<Longrightarrow>
   (token_status t = ALLOCATED \<Longrightarrow>
      \<exists>sid s. token_slotId t = Some sid \<and> getSlot st sid = Some s \<and> k \<in> set (allocatedTokens s)) \<Longrightarrow>
   tokenOk st k t"
  by (auto simp: tokenOk_def split: option.splits)

lemma tokenOk_id: "tokenOk st k t \<Longrightarrow> token_id t = k"
  by (simp add: tokenOk_def)

text \<open>
  Storing a token under its id, with the sort key it had, that is seated where it says
  when it is ALLOCATED.
\<close>

lemma wf_put_token:
  assumes wf: "wellFormed st"
    and id: "token_id t' = k"
    and key: "\<And>t. getToken st k = Some t \<Longrightarrow> sortKey t' = sortKey t"
    and seated: "token_status t' = ALLOCATED \<Longrightarrow>
       \<exists>sid s. token_slotId t' = Some sid \<and> getSlot st sid = Some s \<and> k \<in> set (allocatedTokens s)"
  shows "wellFormed (mutateToken st k t')"
proof (rule wellFormedI)
  fix k0 s
  assume "getSlot (mutateToken st k t') k0 = Some s"
  then have s: "getSlot st k0 = Some s" by simp
  show "slotOk (mutateToken st k t') k0 s"
  proof (rule slotOk_frame [OF wf_slot [OF wf s]])
    fix i
    assume i: "i \<in> set (allocatedTokens s @ waitlist s)"
    show "map_option sortKey (getToken (mutateToken st k t') i) = map_option sortKey (getToken st i)"
    proof (cases "i = k")
      case True
      with wf_listed_stored [OF wf s i] obtain t where "getToken st k = Some t" by auto
      with key [OF this] True show ?thesis by simp
    next
      case False
      then show ?thesis by simp
    qed
  qed
next
  fix k0 t0
  assume t0: "getToken (mutateToken st k t') k0 = Some t0"
  show "tokenOk (mutateToken st k t') k0 t0"
  proof (cases "k0 = k")
    case True
    with t0 have "t0 = t'" by simp
    with True id seated show ?thesis by (intro tokenOkI) auto
  next
    case False
    with t0 have "tokenOk st k0 t0" using wf by (auto intro: wf_token)
    then show ?thesis by (auto simp: tokenOk_def split: option.splits)
  qed
next
  fix k0 k1 s0 s1 i
  assume "k0 \<noteq> k1" "getSlot (mutateToken st k t') k0 = Some s0"
    "getSlot (mutateToken st k t') k1 = Some s1" "i \<in> set (allocatedTokens s0 @ waitlist s0)"
  then show "i \<notin> set (allocatedTokens s1 @ waitlist s1)"
    using wf_disjoint [OF wf, of k0 k1 s0 s1 i] by simp
qed

text \<open>
  Replacing a slot: the new one is in order, keeps the tokens that are ALLOCATED in it,
  and lists no id that another slot lists.
\<close>

lemma wf_replace_slot:
  assumes wf: "wellFormed st"
    and s: "getSlot st sid = Some s"
    and ok: "slotOk st sid s'"
    and keep: "\<And>k t. getToken st k = Some t \<Longrightarrow> token_status t = ALLOCATED \<Longrightarrow>
                 token_slotId t = Some sid \<Longrightarrow> k \<in> set (allocatedTokens s) \<Longrightarrow>
                 k \<in> set (allocatedTokens s')"
    and new: "\<And>i k1 s1. i \<in> set (allocatedTokens s' @ waitlist s') \<Longrightarrow>
                 i \<notin> set (allocatedTokens s @ waitlist s) \<Longrightarrow> k1 \<noteq> sid \<Longrightarrow>
                 getSlot st k1 = Some s1 \<Longrightarrow> i \<notin> set (allocatedTokens s1 @ waitlist s1)"
  shows "wellFormed (mutateSlot st sid s')"
proof (rule wellFormedI)
  fix k0 s0
  assume s0: "getSlot (mutateSlot st sid s') k0 = Some s0"
  show "slotOk (mutateSlot st sid s') k0 s0"
  proof (cases "k0 = sid")
    case True
    with s0 have "s0 = s'" by simp
    with ok True show ?thesis by (simp add: slotOk_def)
  next
    case False
    with s0 wf_slot [OF wf, of k0 s0] show ?thesis by (simp add: slotOk_def)
  qed
next
  fix k0 t0
  assume t0: "getToken (mutateSlot st sid s') k0 = Some t0"
  then have ok0: "tokenOk st k0 t0" using wf by (auto intro: wf_token)
  show "tokenOk (mutateSlot st sid s') k0 t0"
  proof (rule tokenOkI)
    show "token_id t0 = k0" using ok0 by (rule tokenOk_id)
  next
    assume al: "token_status t0 = ALLOCATED"
    from tokenOk_seated [OF ok0 this] obtain sid0 s0 where
      seat: "token_slotId t0 = Some sid0" "getSlot st sid0 = Some s0" "k0 \<in> set (allocatedTokens s0)"
      by blast
    show "\<exists>sid1 s1. token_slotId t0 = Some sid1
          \<and> getSlot (mutateSlot st sid s') sid1 = Some s1 \<and> k0 \<in> set (allocatedTokens s1)"
    proof (cases "sid0 = sid")
      case True
      with seat s have "k0 \<in> set (allocatedTokens s)" by simp
      with keep [of k0 t0] t0 al seat True have "k0 \<in> set (allocatedTokens s')" by simp
      with seat True show ?thesis by simp
    next
      case False
      with seat show ?thesis by simp
    qed
  qed
next
  fix k0 k1 s0 s1 i
  assume a: "k0 \<noteq> k1" "getSlot (mutateSlot st sid s') k0 = Some s0"
    "getSlot (mutateSlot st sid s') k1 = Some s1" "i \<in> set (allocatedTokens s0 @ waitlist s0)"
  show "i \<notin> set (allocatedTokens s1 @ waitlist s1)"
  proof (cases "k0 = sid")
    case True
    with a have eq: "s0 = s'" "getSlot st k1 = Some s1" "k1 \<noteq> sid" by auto
    show ?thesis
    proof (cases "i \<in> set (allocatedTokens s @ waitlist s)")
      case True
      with wf_disjoint [OF wf, of sid k1 s s1 i] s eq show ?thesis by simp
    next
      case False
      with new [of i k1 s1] a eq show ?thesis by simp
    qed
  next
    case False
    note k0 = this
    show ?thesis
    proof (cases "k1 = sid")
      case True
      with a k0 have eq: "s1 = s'" "getSlot st k0 = Some s0" by auto
      show ?thesis
      proof
        assume in1: "i \<in> set (allocatedTokens s1 @ waitlist s1)"
        show False
        proof (cases "i \<in> set (allocatedTokens s @ waitlist s)")
          case True
          with wf_disjoint [OF wf, of k0 sid s0 s i] s eq a k0 show False by simp
        next
          case False
          with new [of i k0 s0] in1 eq a k0 show False by simp
        qed
      qed
    next
      case False
      with k0 a wf_disjoint [OF wf, of k0 k1 s0 s1 i] show ?thesis by simp
    qed
  qed
qed

subsection \<open>Sorted waitlists\<close>

lemma tokenOrder_total: "tokenOrder a b \<or> tokenOrder b a"
  by (auto simp: tokenOrder_def compareTokenPriority_def)

lemma tokenOrder_trans: "tokenOrder a b \<Longrightarrow> tokenOrder b c \<Longrightarrow> tokenOrder a c"
  by (auto simp: tokenOrder_def compareTokenPriority_def split: if_splits)

lemma sorted_insertBy:
  "sorted_wrt tokenOrder xs \<Longrightarrow> sorted_wrt tokenOrder (insertBy byPriority x xs)"
proof (induction xs)
  case Nil
  then show ?case by simp
next
  case (Cons y ys)
  show ?case
  proof (cases "tokenOrder x y")
    case True
    then have "\<forall>z\<in>set ys. tokenOrder x z"
      using Cons.prems by (auto intro: tokenOrder_trans)
    with True Cons.prems show ?thesis by (simp add: tokenOrder_def)
  next
    case False
    then have "tokenOrder y x" using tokenOrder_total [of x y] by simp
    with False Cons show ?thesis by (simp add: tokenOrder_def)
  qed
qed

lemma sorted_sortBy: "sorted_wrt tokenOrder (sortBy byPriority xs)"
  by (induction xs) (simp_all add: sorted_insertBy)

lemma distinct_map_insertBy:
  "distinct (map f (insertBy c x xs)) = (f x \<notin> f ` set xs \<and> distinct (map f xs))"
  by (induction xs) auto

lemma distinct_map_sortBy: "distinct (map f (sortBy c xs)) = distinct (map f xs)"
  by (induction xs) (simp_all add: distinct_map_insertBy)

lemma map_filter_all_stored:
  "\<forall>i\<in>set ids. \<exists>t. f i = Some t \<and> g t = i \<Longrightarrow> map g (List.map_filter f ids) = ids"
  by (induction ids) (auto simp: List.map_filter_simps)

lemma map_filter_map_back:
  "\<forall>x\<in>set xs. f (g x) = Some x \<Longrightarrow> List.map_filter f (map g xs) = xs"
  by (induction xs) (auto simp: List.map_filter_simps)

lemma sortedIds_props:
  assumes "\<forall>i\<in>set ids. \<exists>t. f i = Some t \<and> token_id t = i"
  shows "set (sortedIds f ids) = set ids"
    and "distinct (sortedIds f ids) = distinct ids"
    and "waitlistSorted f (sortedIds f ids)"
proof -
  let ?toks = "List.map_filter f ids"
  have restored: "map token_id ?toks = ids"
    using assms by (rule map_filter_all_stored)
  have "set (sortedIds f ids) = set (map token_id ?toks)"
    by (simp add: sortedIds_def)
  then show "set (sortedIds f ids) = set ids" by (simp only: restored)
  have "distinct (sortedIds f ids) = distinct (map token_id ?toks)"
    by (simp add: sortedIds_def distinct_map_sortBy)
  then show "distinct (sortedIds f ids) = distinct ids" by (simp only: restored)
  have "\<forall>x\<in>set (sortBy byPriority ?toks). f (token_id x) = Some x"
    using assms by (auto simp: set_map_filter)
  then have "List.map_filter f (map token_id (sortBy byPriority ?toks)) = sortBy byPriority ?toks"
    by (rule map_filter_map_back)
  then show "waitlistSorted f (sortedIds f ids)"
    by (simp add: waitlistSorted_def sortedIds_def sorted_sortBy)
qed

lemma waitlistSorted_removeAll:
  "waitlistSorted f ids \<Longrightarrow> waitlistSorted f (removeAll k ids)"
proof (induction ids)
  case Nil
  then show ?case by simp
next
  case (Cons i ids)
  have sub: "set (List.map_filter f (removeAll k ids)) \<subseteq> set (List.map_filter f ids)"
    by (auto simp: set_map_filter)
  from Cons.prems have tail: "waitlistSorted f ids"
    by (cases "f i") (simp_all add: waitlistSorted_def List.map_filter_simps)
  show ?case
  proof (cases "i = k")
    case True
    with Cons.IH [OF tail] show ?thesis by simp
  next
    case False
    with Cons.prems Cons.IH [OF tail] sub show ?thesis
      by (cases "f i") (auto simp: waitlistSorted_def List.map_filter_simps)
  qed
qed

subsection \<open>The four changes to a slot\<close>

lemma wf_evict:
  assumes wf: "wellFormed st"
    and s: "getSlot st sid = Some s"
    and free: "\<And>t. getToken st k = Some t \<Longrightarrow> token_status t = ALLOCATED \<Longrightarrow>
                 token_slotId t \<noteq> Some sid"
  shows "wellFormed (mutateSlot st sid
           (s\<lparr>allocatedTokens := removeAll k (allocatedTokens s),
              currentLoad := length (removeAll k (allocatedTokens s))\<rparr>))"
proof (rule wf_replace_slot [OF wf s])
  show "slotOk st sid (s\<lparr>allocatedTokens := removeAll k (allocatedTokens s),
                         currentLoad := length (removeAll k (allocatedTokens s))\<rparr>)"
    using wf_slot [OF wf s] by (auto simp: slotOk_def distinct_removeAll)
next
  fix k0 t
  assume "getToken st k0 = Some t" "token_status t = ALLOCATED" "token_slotId t = Some sid"
    "k0 \<in> set (allocatedTokens s)"
  with free [of t] show "k0 \<in> set (allocatedTokens
      (s\<lparr>allocatedTokens := removeAll k (allocatedTokens s),
         currentLoad := length (removeAll k (allocatedTokens s))\<rparr>))"
    by (cases "k0 = k") auto
next
  fix i k1 s1
  assume "i \<in> set (allocatedTokens (s\<lparr>allocatedTokens := removeAll k (allocatedTokens s),
              currentLoad := length (removeAll k (allocatedTokens s))\<rparr>)
            @ waitlist (s\<lparr>allocatedTokens := removeAll k (allocatedTokens s),
              currentLoad := length (removeAll k (allocatedTokens s))\<rparr>))"
    "i \<notin> set (allocatedTokens s @ waitlist s)"
  then show "i \<notin> set (allocatedTokens s1 @ waitlist s1)" by auto
qed

lemma wf_unqueue:
  assumes wf: "wellFormed st" and s: "getSlot st sid = Some s"
  shows "wellFormed (mutateSlot st sid (s\<lparr>waitlist := removeAll k (waitlist s)\<rparr>))"
proof (rule wf_replace_slot [OF wf s])
  show "slotOk st sid (s\<lparr>waitlist := removeAll k (waitlist s)\<rparr>)"
    using wf_slot [OF wf s]
    by (auto simp: slotOk_def distinct_removeAll waitlistSorted_removeAll)
next
  fix k0 t
  assume "k0 \<in> set (allocatedTokens s)"
  then show "k0 \<in> set (allocatedTokens (s\<lparr>waitlist := removeAll k (waitlist s)\<rparr>))" by simp
next
  fix i k1 s1
  assume "i \<in> set (allocatedTokens (s\<lparr>waitlist := removeAll k (waitlist s)\<rparr>)
            @ waitlist (s\<lparr>waitlist := removeAll k (waitlist s)\<rparr>))"
    "i \<notin> set (allocatedTokens s @ waitlist s)"
  then show "i \<notin> set (allocatedTokens s1 @ waitlist s1)" by auto
qed

lemma wf_append_allocated:
  assumes wf: "wellFormed st" and s: "getSlot st sid = Some s"
    and stored: "getToken st k \<noteq> None"
    and un: "unlisted st k"
  shows "wellFormed (mutateSlot st sid
           (s\<lparr>allocatedTokens := allocatedTokens s @ [k],
              currentLoad := Suc (length (allocatedTokens s))\<rparr>))"
proof (rule wf_replace_slot [OF wf s])
  show "slotOk st sid (s\<lparr>allocatedTokens := allocatedTokens s @ [k],
                         currentLoad := Suc (length (allocatedTokens s))\<rparr>)"
    using wf_slot [OF wf s] stored un s by (auto simp: slotOk_def unlisted_def)
next
  fix k0 t
  assume "k0 \<in> set (allocatedTokens s)"
  then show "k0 \<in> set (allocatedTokens (s\<lparr>allocatedTokens := allocatedTokens s @ [k],
                         currentLoad := Suc (length (allocatedTokens s))\<rparr>))" by simp
next
  fix i k1 s1
  assume "i \<in> set (allocatedTokens (s\<lparr>allocatedTokens := allocatedTokens s @ [k],
                         currentLoad := Suc (length (allocatedTokens s))\<rparr>)
            @ waitlist (s\<lparr>allocatedTokens := allocatedTokens s @ [k],
                         currentLoad := Suc (length (allocatedTokens s))\<rparr>))"
    "i \<notin> set (allocatedTokens s @ waitlist s)" "getSlot st k1 = Some s1"
  with un show "i \<notin> set (allocatedTokens s1 @ waitlist s1)"
    by (auto simp: unlisted_def)
qed

lemma wf_enqueue:
  assumes wf: "wellFormed st" and s: "getSlot st sid = Some s"
    and stored: "getToken st k \<noteq> None"
    and un: "unlisted st k"
  shows "wellFormed (mutateSlot st sid
           (s\<lparr>waitlist := sortedIds (getToken st) (waitlist s @ [k])\<rparr>))"
proof (rule wf_replace_slot [OF wf s])
  have ok: "slotOk st sid s" by (rule wf_slot [OF wf s])
  have all: "\<forall>i\<in>set (waitlist s @ [k]). \<exists>t. getToken st i = Some t \<and> token_id t = i"
  proof
    fix i
    assume "i \<in> set (waitlist s @ [k])"
    then have "getToken st i \<noteq> None" using ok stored by (auto simp: slotOk_def)
    then obtain t where "getToken st i = Some t" by auto
    with wf_token [OF wf this] show "\<exists>t. getToken st i = Some t \<and> token_id t = i"
      by (auto dest: tokenOk_id)
  qed
  note props = sortedIds_props [OF all]
  have "k \<notin> set (allocatedTokens s @ waitlist s)"
    using un s by (auto simp: unlisted_def)
  then show "slotOk st sid (s\<lparr>waitlist := sortedIds (getToken st) (waitlist s @ [k])\<rparr>)"
    using ok stored props by (auto simp: slotOk_def)
next
  fix k0 t
  assume "k0 \<in> set (allocatedTokens s)"
  then show "k0 \<in> set (allocatedTokens
      (s\<lparr>waitlist := sortedIds (getToken st) (waitlist s @ [k])\<rparr>))" by simp
next
  have ok: "slotOk st sid s" by (rule wf_slot [OF wf s])
  have all: "\<forall>i\<in>set (waitlist s @ [k]). \<exists>t. getToken st i = Some t \<and> token_id t = i"
  proof
    fix i
    assume "i \<in> set (waitlist s @ [k])"
    then have "getToken st i \<noteq> None" using ok stored by (auto simp: slotOk_def)
    then obtain t where "getToken st i = Some t" by auto
    with wf_token [OF wf this] show "\<exists>t. getToken st i = Some t \<and> token_id t = i"
      by (auto dest: tokenOk_id)
  qed
  fix i k1 s1
  assume "i \<in> set (allocatedTokens (s\<lparr>waitlist := sortedIds (getToken st) (waitlist s @ [k])\<rparr>)
            @ waitlist (s\<lparr>waitlist := sortedIds (getToken st) (waitlist s @ [k])\<rparr>))"
    "i \<notin> set (allocatedTokens s @ waitlist s)" "getSlot st k1 = Some s1"
  with un sortedIds_props(1) [OF all] show "i \<notin> set (allocatedTokens s1 @ waitlist s1)"
    by (auto simp: unlisted_def)
qed

subsection \<open>The slot manager keeps consistency\<close>

lemma unlisted_mutateToken [simp]: "unlisted (mutateToken st k t) i = unlisted st i"
  by (simp add: unlisted_def)

lemma unlisted_unknown: "wellFormed st \<Longrightarrow> getToken st k = None \<Longrightarrow> unlisted st k"
  unfolding unlisted_def using wf_listed_stored by blast

lemma unlisted_after_removal:
  assumes wf: "wellFormed st" and s: "getSlot st sid = Some s"
    and listed: "k \<in> set (allocatedTokens s @ waitlist s)"
    and gone: "k \<notin> set (allocatedTokens s' @ waitlist s')"
  shows "unlisted (mutateSlot st sid s') k"
  unfolding unlisted_def
proof (intro allI impI)
  fix k1 s1
  assume s1: "getSlot (mutateSlot st sid s') k1 = Some s1"
  show "k \<notin> set (allocatedTokens s1 @ waitlist s1)"
  proof (cases "k1 = sid")
    case True
    with s1 gone show ?thesis by simp
  next
    case False
    with s1 wf_disjoint [OF wf _ s _ listed, of k1 s1] show ?thesis by auto
  qed
qed

lemma unlisted_other_slot:
  "unlisted st k \<Longrightarrow> k \<notin> set (allocatedTokens s' @ waitlist s') \<Longrightarrow>
     unlisted (mutateSlot st sid s') k"
  by (auto simp: unlisted_def)

lemma wf_removeTokenFromSlot:
  assumes wf: "wellFormed st"
    and free: "\<And>t. getToken st k = Some t \<Longrightarrow> token_status t = ALLOCATED \<Longrightarrow>
                 token_slotId t \<noteq> Some sid"
  shows "wellFormed (removeTokenFromSlot st sid k)"
proof (cases "getSlot st sid")
  case None
  with wf show ?thesis by (simp add: removeTokenFromSlot_unknown)
next
  case (Some s)
  from wf_evict [OF wf Some free] show ?thesis
    by (simp add: removeTokenFromSlot_eq [OF Some] filter_neq_removeAll)
qed

lemma wf_removeFromWaitlist:
  assumes wf: "wellFormed st"
  shows "wellFormed (removeFromWaitlist st sid k)"
proof (cases "getSlot st sid")
  case None
  with wf show ?thesis by (simp add: removeFromWaitlist_def)
next
  case (Some s)
  from wf_unqueue [OF wf Some] show ?thesis
    by (simp add: removeFromWaitlist_eq [OF Some] filter_neq_removeAll)
qed

lemma wf_promoteFromWaitlist:
  assumes wf: "wellFormed st"
  shows "\<exists>r st'. promoteFromWaitlist st sid now = Inr (r, st') \<and> wellFormed st'"
proof (cases "getNextFromWaitlist st sid")
  case None
  with wf show ?thesis by (simp add: promoteFromWaitlist_def)
next
  case (Some ht)
  then obtain s h rest where s: "getSlot st sid = Some s" and wl: "waitlist s = h # rest"
    and ht: "getToken st h = Some ht"
    by (auto simp: getNextFromWaitlist_def split: option.splits list.splits)
  have ok: "slotOk st sid s" by (rule wf_slot [OF wf s])
  have hid: "token_id ht = h" using wf_token [OF wf ht] by (rule tokenOk_id)
  have dist: "distinct (allocatedTokens s @ h # rest)" using ok wl by (simp add: slotOk_def)
  then have fresh: "h \<notin> set rest" by simp
  let ?sa = "s\<lparr>waitlist := removeAll h (waitlist s)\<rparr>"
  let ?sb = "?sa\<lparr>allocatedTokens := allocatedTokens ?sa @ [h],
                   currentLoad := Suc (length (allocatedTokens ?sa))\<rparr>"
  let ?ht = "ht\<lparr>token_status := ALLOCATED, token_slotId := Some sid, allocatedAt := Some now\<rparr>"
  have rest: "removeAll h (waitlist s) = rest" using wl fresh by simp
  have wa: "wellFormed (mutateSlot st sid ?sa)" by (rule wf_unqueue [OF wf s])
  have un: "unlisted (mutateSlot st sid ?sa) h"
    using dist by (intro unlisted_after_removal [OF wf s]) (simp_all add: wl rest)
  have wb: "wellFormed (mutateSlot (mutateSlot st sid ?sa) sid ?sb)"
    using ht by (intro wf_append_allocated [OF wa _ _ un]) simp_all
  have wc: "wellFormed (mutateToken (mutateSlot (mutateSlot st sid ?sa) sid ?sb) h ?ht)"
    using ht hid by (intro wf_put_token [OF wb]) (simp_all add: sortKey_def)
  have "mutateToken (mutateSlot (mutateSlot st sid ?sa) sid ?sb) h ?ht
          = mutateToken
              (mutateSlot st sid
                 (s\<lparr>waitlist := rest, allocatedTokens := allocatedTokens s @ [h],
                    currentLoad := Suc (length (allocatedTokens s))\<rparr>)) h ?ht"
    using rest by (cases s) simp
  with wc promote_head [OF s wl ht hid fresh, of now] show ?thesis by simp
qed

subsection \<open>Cancellation, no-show and completion keep consistency\<close>

lemma wf_set_status:
  assumes wf: "wellFormed st" and tok: "getToken st k = Some tok" and final: "final \<noteq> ALLOCATED"
  shows "wellFormed (updateToken st k (\<lambda>t. t\<lparr>token_status := final\<rparr>))"
proof -
  have "token_id tok = k" using wf_token [OF wf tok] by (rule tokenOk_id)
  then have "wellFormed (mutateToken st k (tok\<lparr>token_status := final\<rparr>))"
    using tok final by (intro wf_put_token [OF wf]) (simp_all add: sortKey_def)
  then show ?thesis using tok by (simp add: updateToken_eq)
qed

lemma wf_evict_and_promote:
  assumes wf: "wellFormed st" and tok: "getToken st k = Some tok" and final: "final \<noteq> ALLOCATED"
  shows "\<exists>r st'. promoteFromWaitlist
                    (removeTokenFromSlot (updateToken st k (\<lambda>t. t\<lparr>token_status := final\<rparr>)) sid k)
                    sid now = Inr (r, st')
               \<and> wellFormed st'"
proof -
  let ?st1 = "updateToken st k (\<lambda>t. t\<lparr>token_status := final\<rparr>)"
  have w1: "wellFormed ?st1" by (rule wf_set_status [OF wf tok final])
  have "getToken ?st1 k = Some (tok\<lparr>token_status := final\<rparr>)"
    using tok by (simp add: updateToken_eq)
  then have "wellFormed (removeTokenFromSlot ?st1 sid k)"
    using final by (intro wf_removeTokenFromSlot [OF w1]) auto
  then show ?thesis by (rule wf_promoteFromWaitlist)
qed

lemma wf_cancelToken:
  assumes wf: "wellFormed st"
  shows "wellFormed (storeAfter st (cancelToken st k now))"
proof (cases "getToken st k")
  case None
  with wf show ?thesis by (simp add: cancelToken_def storeAfter_def)
next
  case (Some tok)
  let ?st1 = "updateToken st k (\<lambda>t. t\<lparr>token_status := CANCELLED\<rparr>)"
  have w1: "wellFormed ?st1" by (rule wf_set_status [OF wf Some]) simp
  show ?thesis
  proof (cases "token_status tok = CANCELLED")
    case True
    with wf Some show ?thesis by (simp add: cancelToken_def storeAfter_def)
  next
    case False
    note live = this
    show ?thesis
    proof (cases "truthy (token_slotId tok) \<and> token_status tok = ALLOCATED")
      case True
      from wf_evict_and_promote [OF wf Some, of CANCELLED "the (token_slotId tok)" now]
      obtain r st' where
        "promoteFromWaitlist (removeTokenFromSlot ?st1 (the (token_slotId tok)) k)
           (the (token_slotId tok)) now = Inr (r, st')" "wellFormed st'"
        by auto
      with Some live True show ?thesis
        by (simp add: cancelToken_def storeAfter_def Let_def)
    next
      case False
      with Some live w1 wf_removeFromWaitlist [OF w1] show ?thesis
        by (auto simp: cancelToken_def storeAfter_def Let_def)
    qed
  qed
qed

lemma wf_markNoShow:
  assumes wf: "wellFormed st"
  shows "wellFormed (storeAfter st (markNoShow st k now))"
proof (cases "getToken st k")
  case None
  with wf show ?thesis by (simp add: markNoShow_def storeAfter_def)
next
  case (Some tok)
  let ?st1 = "updateToken st k (\<lambda>t. t\<lparr>token_status := NO_SHOW\<rparr>)"
  have w1: "wellFormed ?st1" by (rule wf_set_status [OF wf Some]) simp
  show ?thesis
  proof (cases "truthy (token_slotId tok)")
    case True
    from wf_evict_and_promote [OF wf Some, of NO_SHOW "the (token_slotId tok)" now]
    obtain r st' where
      "promoteFromWaitlist (removeTokenFromSlot ?st1 (the (token_slotId tok)) k)
         (the (token_slotId tok)) now = Inr (r, st')" "wellFormed st'"
      by auto
    with Some True show ?thesis
      by (simp add: markNoShow_def storeAfter_def Let_def)
  next
    case False
    with Some w1 show ?thesis
      by (simp add: markNoShow_def storeAfter_def Let_def)
  qed
qed

lemma wf_completeToken:
  assumes wf: "wellFormed st"
  shows "wellFormed (case completeToken st k of Inl e \<Rightarrow> st | Inr st' \<Rightarrow> st')"
proof (cases "getToken st k")
  case None
  with wf show ?thesis by (simp add: completeToken_def)
next
  case (Some tok)
  with wf_set_status [OF wf Some, of COMPLETED] show ?thesis
    by (simp add: completeToken_def)
qed

subsection \<open>Allocation keeps consistency\<close>

lemma unlisted_slot: "unlisted st k \<Longrightarrow> getSlot st sid = Some s \<Longrightarrow>
    k \<notin> set (allocatedTokens s) \<and> k \<notin> set (waitlist s)"
  by (auto simp: unlisted_def)

lemma wf_seat:
  assumes wf: "wellFormed st" and s: "getSlot st sid = Some s"
    and tok: "getToken st k = Some t" and un: "unlisted st k"
  shows "\<exists>st1. addTokenToSlot st sid k = Inr st1
           \<and> wellFormed (updateToken st1 k
                 (\<lambda>t. t\<lparr>token_status := ALLOCATED, token_slotId := Some sid,
                        allocatedAt := Some now\<rparr>))
           \<and> getSlot (updateToken st1 k
                 (\<lambda>t. t\<lparr>token_status := ALLOCATED, token_slotId := Some sid,
                        allocatedAt := Some now\<rparr>)) sid \<noteq> None"
proof -
  let ?s1 = "s\<lparr>allocatedTokens := allocatedTokens s @ [k],
                 currentLoad := Suc (length (allocatedTokens s))\<rparr>"
  let ?t1 = "t\<lparr>token_status := ALLOCATED, token_slotId := Some sid, allocatedAt := Some now\<rparr>"
  have w1: "wellFormed (mutateSlot st sid ?s1)"
    using tok by (intro wf_append_allocated [OF wf s _ un]) simp
  have id: "token_id t = k" using wf_token [OF wf tok] by (rule tokenOk_id)
  have "wellFormed (mutateToken (mutateSlot st sid ?s1) k ?t1)"
    using tok id by (intro wf_put_token [OF w1]) (simp_all add: sortKey_def)
  then show ?thesis
    using tok by (simp add: addTokenToSlot_eq [OF s] updateToken_eq)
qed

lemma wf_waitlist:
  assumes wf: "wellFormed st" and s: "getSlot st sid = Some s"
    and tok: "getToken st k = Some t" and un: "unlisted st k"
  shows "\<exists>st1. addToWaitlist st sid k = Inr st1
           \<and> wellFormed (updateToken st1 k
                 (\<lambda>t. t\<lparr>token_status := WAITLISTED, token_slotId := Some sid\<rparr>))
           \<and> getSlot (updateToken st1 k
                 (\<lambda>t. t\<lparr>token_status := WAITLISTED, token_slotId := Some sid\<rparr>)) sid \<noteq> None"
proof -
  let ?s1 = "s\<lparr>waitlist := sortedIds (getToken st) (waitlist s @ [k])\<rparr>"
  let ?t1 = "t\<lparr>token_status := WAITLISTED, token_slotId := Some sid\<rparr>"
  have w1: "wellFormed (mutateSlot st sid ?s1)"
    using tok by (intro wf_enqueue [OF wf s _ un]) simp
  have id: "token_id t = k" using wf_token [OF wf tok] by (rule tokenOk_id)
  have "wellFormed (mutateToken (mutateSlot st sid ?s1) k ?t1)"
    using tok id by (intro wf_put_token [OF w1]) (simp_all add: sortKey_def)
  then show ?thesis
    using tok by (simp add: addToWaitlist_eq [OF s] updateToken_eq)
qed

lemma wf_tryBump:
  assumes wf: "wellFormed st" and slot: "getSlot st sid = Some slot"
    and tok: "getToken st (token_id tok) = Some tok" and un: "unlisted st (token_id tok)"
  shows "\<exists>r st'. tryBumpLowerPriority st tok sid now = Inr (r, st') \<and> wellFormed st'
                \<and> (\<not> success r \<longrightarrow> st' = st)"
proof (cases "bumpableCandidates st tok slot = []")
  case True
  with wf tryBump_none [OF slot True] show ?thesis by simp
next
  case False
  define old where "old = last (bumpableCandidates st tok slot)"
  let ?tid = "token_id tok"
  let ?oid = "token_id old"
  let ?old' = "old\<lparr>token_status := WAITLISTED, token_slotId := None, allocatedAt := None,
                    bumpCount := bumpCount old + 1\<rparr>"
  let ?tok' = "tok\<lparr>token_status := ALLOCATED, token_slotId := Some sid, allocatedAt := Some now\<rparr>"
  have "old \<in> set (bumpableCandidates st tok slot)" using False by (simp add: old_def)
  then obtain i where i: "i \<in> set (allocatedTokens slot)" "getToken st i = Some old"
    by (auto simp: bumpableCandidates_def set_map_filter)
  have oid: "?oid = i" using wf_token [OF wf i(2)] by (rule tokenOk_id)
  have seated: "?oid \<in> set (allocatedTokens slot)" and stored: "getToken st ?oid = Some old"
    using i oid by simp_all
  have tslot: "?tid \<notin> set (allocatedTokens slot)" "?tid \<notin> set (waitlist slot)"
    using unlisted_slot [OF un slot] by simp_all
  then have differ: "?oid \<noteq> ?tid" using seated by auto
  have ok: "slotOk st sid slot" by (rule wf_slot [OF wf slot])
  then have waiting: "?oid \<notin> set (waitlist slot)"
    using seated by (auto simp: slotOk_def)
  let ?sta = "mutateToken st ?oid ?old'"
  let ?sb = "slot\<lparr>allocatedTokens := removeAll ?oid (allocatedTokens slot),
                    currentLoad := length (removeAll ?oid (allocatedTokens slot))\<rparr>"
  let ?stb = "mutateSlot ?sta sid ?sb"
  let ?sc = "?sb\<lparr>waitlist := sortedIds (getToken ?stb) (waitlist ?sb @ [?oid])\<rparr>"
  let ?stc = "mutateSlot ?stb sid ?sc"
  let ?sd = "?sc\<lparr>allocatedTokens := allocatedTokens ?sc @ [?tid],
                   currentLoad := Suc (length (allocatedTokens ?sc))\<rparr>"
  let ?std = "mutateSlot ?stc sid ?sd"
  have wa: "wellFormed ?sta"
    using stored by (intro wf_put_token [OF wf]) (simp_all add: sortKey_def)
  have wb: "wellFormed ?stb"
    by (rule wf_evict [OF wa]) (simp_all add: slot)
  have unb: "unlisted ?stb ?oid"
    using seated waiting by (intro unlisted_after_removal [OF wa]) (auto simp: slot)
  have wc: "wellFormed ?stc"
    by (rule wf_enqueue [OF wb _ _ unb]) simp_all
  have known: "\<forall>i\<in>set (waitlist ?sb @ [?oid]). \<exists>t. getToken ?stb i = Some t \<and> token_id t = i"
  proof
    fix j
    assume "j \<in> set (waitlist ?sb @ [?oid])"
    then have "getToken ?stb j \<noteq> None"
      using wf_listed_stored [OF wb, of sid ?sb j] by auto
    then obtain t where t: "getToken ?stb j = Some t" by auto
    from wf_token [OF wb this] have "token_id t = j" by (rule tokenOk_id)
    with t show "\<exists>t. getToken ?stb j = Some t \<and> token_id t = j" by blast
  qed
  have "set (sortedIds (getToken ?stb) (waitlist ?sb @ [?oid])) = set (waitlist ?sb @ [?oid])"
    by (rule sortedIds_props(1) [OF known])
  then have "set (waitlist ?sc) = insert ?oid (set (waitlist slot))"
    by simp
  then have outc: "?tid \<notin> set (allocatedTokens ?sc @ waitlist ?sc)"
    using tslot differ by auto
  have outb: "?tid \<notin> set (allocatedTokens ?sb @ waitlist ?sb)"
    using tslot by auto
  have "unlisted ?sta ?tid" using un by simp
  then have "unlisted ?stb ?tid" using outb by (rule unlisted_other_slot)
  then have und: "unlisted ?stc ?tid" using outc by (rule unlisted_other_slot)
  have wd: "wellFormed ?std"
    using tok differ by (intro wf_append_allocated [OF wc _ _ und]) simp_all
  have we: "wellFormed (mutateToken ?std ?tid ?tok')"
    using tok differ by (intro wf_put_token [OF wd]) (simp_all add: sortKey_def)
  from tryBump_some [OF slot False old_def stored tok differ, of now]
  obtain r where run: "tryBumpLowerPriority st tok sid now =
           Inr (r,
             mutateToken
               (mutateToken
                  (mutateSlot st sid
                     (slot\<lparr>allocatedTokens :=
                             filter (\<lambda>i. i \<noteq> ?oid) (allocatedTokens slot) @ [?tid],
                           currentLoad :=
                             Suc (length (filter (\<lambda>i. i \<noteq> ?oid) (allocatedTokens slot))),
                           waitlist :=
                             sortedIds ((getToken st)(?oid \<mapsto> ?old'))
                               (waitlist slot @ [?oid])\<rparr>))
                  ?oid ?old')
               ?tid ?tok')"
    and ok: "success r"
    by blast
  have "mutateToken ?std ?tid ?tok' =
          mutateToken
               (mutateToken
                  (mutateSlot st sid
                     (slot\<lparr>allocatedTokens :=
                             filter (\<lambda>i. i \<noteq> ?oid) (allocatedTokens slot) @ [?tid],
                           currentLoad :=
                             Suc (length (filter (\<lambda>i. i \<noteq> ?oid) (allocatedTokens slot))),
                           waitlist :=
                             sortedIds ((getToken st)(?oid \<mapsto> ?old'))
                               (waitlist slot @ [?oid])\<rparr>))
                  ?oid ?old')
               ?tid ?tok'"
    by (cases slot) (simp add: filter_neq_removeAll)
  with we run ok show ?thesis by simp
qed

lemma wf_allocatorAddToWaitlist:
  assumes wf: "wellFormed st" and s: "getSlot st sid = Some s"
    and tok: "getToken st (token_id tok) = Some tok" and un: "unlisted st (token_id tok)"
  shows "\<exists>r st'. allocatorAddToWaitlist st tok sid = Inr (r, st') \<and> wellFormed st'"
proof -
  from wf_waitlist [OF wf s tok un] obtain st1 where
    "addToWaitlist st sid (token_id tok) = Inr st1"
    "wellFormed (updateToken st1 (token_id tok)
       (\<lambda>t. t\<lparr>token_status := WAITLISTED, token_slotId := Some sid\<rparr>))"
    "getSlot (updateToken st1 (token_id tok)
       (\<lambda>t. t\<lparr>token_status := WAITLISTED, token_slotId := Some sid\<rparr>)) sid \<noteq> None"
    by blast
  then show ?thesis
    by (auto simp: allocatorAddToWaitlist_def Let_def)
qed

lemma wf_handleEmergencyAllocation:
  assumes wf: "wellFormed st" and s: "getSlot st sid = Some s"
    and tok: "getToken st (token_id tok) = Some tok" and un: "unlisted st (token_id tok)"
  shows "\<exists>r st'. handleEmergencyAllocation st tok sid now = Inr (r, st') \<and> wellFormed st'"
proof -
  from wf_seat [OF wf s tok un, of now] obtain st1 where
    "addTokenToSlot st sid (token_id tok) = Inr st1"
    "wellFormed (updateToken st1 (token_id tok)
       (\<lambda>t. t\<lparr>token_status := ALLOCATED, token_slotId := Some sid, allocatedAt := Some now\<rparr>))"
    "getSlot (updateToken st1 (token_id tok)
       (\<lambda>t. t\<lparr>token_status := ALLOCATED, token_slotId := Some sid, allocatedAt := Some now\<rparr>))
       sid \<noteq> None"
    by blast
  then show ?thesis
    by (auto simp: handleEmergencyAllocation_def Let_def)
qed

lemma wf_allocateToSlot:
  assumes wf: "wellFormed st"
    and tok: "getToken st (token_id tok) = Some tok" and un: "unlisted st (token_id tok)"
  shows "\<exists>r st'. allocateToSlot st tok sid now = Inr (r, st') \<and> wellFormed st'"
proof (cases "getSlot st sid")
  case None
  with wf show ?thesis by (simp add: allocateToSlot_def)
next
  case (Some s)
  show ?thesis
  proof (cases "hasCapacity st sid")
    case True
    from wf_seat [OF wf Some tok un, of now] obtain st1 where
      "addTokenToSlot st sid (token_id tok) = Inr st1"
      "wellFormed (updateToken st1 (token_id tok)
         (\<lambda>t. t\<lparr>token_status := ALLOCATED, token_slotId := Some sid, allocatedAt := Some now\<rparr>))"
      by blast
    with Some True show ?thesis by (simp add: allocateToSlot_def Let_def)
  next
    case False
    note full = this
    show ?thesis
    proof (cases "patientType tok = EMERGENCY")
      case True
      with Some full wf_handleEmergencyAllocation [OF wf Some tok un, of now] show ?thesis
        by (simp add: allocateToSlot_def)
    next
      case False
      note calm = this
      show ?thesis
      proof (cases "patientType tok = PAID_PRIORITY")
        case True
        from wf_tryBump [OF wf Some tok un, of now] obtain r st' where
          bump: "tryBumpLowerPriority st tok sid now = Inr (r, st')" "wellFormed st'"
            "\<not> success r \<longrightarrow> st' = st"
          by blast
        show ?thesis
        proof (cases "success r")
          case True
          with Some full calm \<open>patientType tok = PAID_PRIORITY\<close> bump show ?thesis
            by (simp add: allocateToSlot_def)
        next
          case False
          with bump have "st' = st" by simp
          with Some full calm \<open>patientType tok = PAID_PRIORITY\<close> bump False
            wf_allocatorAddToWaitlist [OF wf Some tok un] show ?thesis
            by (simp add: allocateToSlot_def)
        qed
      next
        case False
        with Some full calm wf_allocatorAddToWaitlist [OF wf Some tok un] show ?thesis
          by (simp add: allocateToSlot_def)
      qed
    qed
  qed
qed

lemma wf_allocateToken:
  assumes wf: "wellFormed st" and new: "getToken st newId = None"
  shows "\<exists>r st'. allocateToken st newId now name ptype doctorId preferredSlotId = Inr (r, st')
                \<and> wellFormed st'"
proof -
  let ?tok = "\<lparr>token_id = newId, patientName = name, patientType = ptype,
                priority = getPriorityScore ptype, token_doctorId = doctorId,
                token_slotId = None, token_status = PENDING, createdAt = now,
                allocatedAt = None, bumpCount = 0\<rparr>"
  let ?st1 = "addToken st ?tok"
  have st1: "?st1 = mutateToken st newId ?tok"
    by (simp add: addToken_def mutateToken_def)
  have w1: "wellFormed ?st1"
    unfolding st1 using new by (intro wf_put_token [OF wf]) simp_all
  have stored: "getToken ?st1 (token_id ?tok) = Some ?tok"
    by (simp add: st1)
  have un: "unlisted ?st1 (token_id ?tok)"
    using unlisted_unknown [OF wf new] by (simp add: st1)
  let ?target = "if truthy preferredSlotId then getSlot ?st1 (the preferredSlotId)
                 else findBestAvailableSlot ?st1 doctorId"
  show ?thesis
  proof (cases ?target)
    case None
    have "wellFormed (mutateToken ?st1 newId (?tok\<lparr>token_status := WAITLISTED\<rparr>))"
      by (intro wf_put_token [OF w1]) (simp_all add: st1 sortKey_def)
    then have "wellFormed (updateToken (mutateToken ?st1 (token_id (?tok\<lparr>token_status := WAITLISTED\<rparr>))
                                (?tok\<lparr>token_status := WAITLISTED\<rparr>))
                 (token_id (?tok\<lparr>token_status := WAITLISTED\<rparr>)) (\<lambda>_. ?tok\<lparr>token_status := WAITLISTED\<rparr>))"
      by (simp add: updateToken_eq)
    with None show ?thesis
      by (simp add: allocateToken_def Let_def)
  next
    case (Some target)
    with wf_allocateToSlot [OF w1 stored un, of "slot_id target" now] show ?thesis
      by (simp add: allocateToken_def Let_def)
  qed
qed

subsection \<open>Redistribution\<close>

lemma wf_moveToken:
  assumes wf: "wellFormed st"
    and src: "getSlot st source = Some src"
    and listed: "tokenId \<in> set (allocatedTokens src @ waitlist src)"
    and tgt: "getSlot st target = Some tgt"
    and other: "target \<noteq> source"
  shows "wellFormed (moveToken st source target tokenId)"
proof -
  from wf_listed_stored [OF wf src listed] obtain tok where tok: "getToken st tokenId = Some tok"
    by blast
  have id: "token_id tok = tokenId"
    using wf_token [OF wf tok] by (rule tokenOk_id)
  let ?src1 = "src\<lparr>allocatedTokens := removeAll tokenId (allocatedTokens src),
                    currentLoad := length (removeAll tokenId (allocatedTokens src))\<rparr>"
  let ?src2 = "?src1\<lparr>waitlist := removeAll tokenId (waitlist ?src1)\<rparr>"
  let ?tgt1 = "tgt\<lparr>allocatedTokens := allocatedTokens tgt @ [tokenId],
                    currentLoad := Suc (length (allocatedTokens tgt))\<rparr>"
  let ?stA = "mutateToken st tokenId (tok\<lparr>token_status := PENDING\<rparr>)"
  let ?stB = "mutateSlot ?stA source ?src1"
  let ?stC = "mutateSlot ?stB source ?src2"
  let ?stD = "mutateSlot ?stC target ?tgt1"
  let ?stE = "mutateToken ?stD tokenId (tok\<lparr>token_slotId := Some target\<rparr>)"
  have wA: "wellFormed ?stA"
    using id tok by (intro wf_put_token [OF wf]) (simp_all add: sortKey_def)
  have srcA: "getSlot ?stA source = Some src"
    using src by simp
  have wB: "wellFormed ?stB"
    by (rule wf_evict [OF wA srcA]) simp
  have srcB: "getSlot ?stB source = Some ?src1"
    by simp
  have wC: "wellFormed ?stC"
    by (rule wf_unqueue [OF wB srcB])
  have stC: "?stC = mutateSlot ?stA source ?src2"
    by (simp only: mutateSlot_twice)
  have "tokenId \<notin> set (allocatedTokens ?src2 @ waitlist ?src2)"
    by simp
  with wA srcA listed have "unlisted (mutateSlot ?stA source ?src2) tokenId"
    by (rule unlisted_after_removal)
  then have un: "unlisted ?stC tokenId"
    by (simp only: stC)
  have tgtC: "getSlot ?stC target = Some tgt"
    using tgt other by simp
  have storedC: "getToken ?stC tokenId \<noteq> None"
    by simp
  have wD: "wellFormed ?stD"
    by (rule wf_append_allocated [OF wC tgtC storedC un])
  have wE: "wellFormed ?stE"
  proof (rule wf_put_token [OF wD])
    show "token_id (tok\<lparr>token_slotId := Some target\<rparr>) = tokenId"
      using id by simp
  next
    fix t
    assume "getToken ?stD tokenId = Some t"
    then show "sortKey (tok\<lparr>token_slotId := Some target\<rparr>) = sortKey t"
      by (auto simp: sortKey_def)
  next
    show "\<exists>sid s. token_slotId (tok\<lparr>token_slotId := Some target\<rparr>) = Some sid
              \<and> getSlot ?stD sid = Some s \<and> tokenId \<in> set (allocatedTokens s)"
      by (intro exI [of _ target] exI [of _ ?tgt1]) simp
  qed
  have "moveToken st source target tokenId = ?stE"
    using src tgt tok other by (simp add: moveToken_def)
  with wE show ?thesis
    by simp
qed

lemma wf_firstFitRedistribution:
  assumes "wellFormed st"
    and "getSlot st source \<noteq> None"
    and "\<forall>c\<in>set candidates. c \<noteq> source"
    and "set ts \<subseteq> set (remainingTokens st source)"
    and "distinct ts"
    and "firstFitRedistribution source candidates ts st = (moved, unmoved, st')"
  shows "wellFormed st'"
  using assms
proof (induction ts arbitrary: st moved unmoved st')
  case Nil
  then show ?case by simp
next
  case (Cons tokenId rest)
  from Cons.prems(2) obtain src where src: "getSlot st source = Some src"
    by blast
  have listed: "tokenId \<in> set (allocatedTokens src @ waitlist src)"
    using Cons.prems(4) src by (simp add: remainingTokens_def)
  show ?case
  proof (cases "find (hasCapacity st) candidates")
    case None
    obtain m u s where rest: "firstFitRedistribution source candidates rest st = (m, u, s)"
      by (cases "firstFitRedistribution source candidates rest st")
    have "wellFormed s"
      using Cons.prems(1-5) by (intro Cons.IH [OF _ _ _ _ _ rest]) simp_all
    with None Cons.prems(6) rest show ?thesis
      by simp
  next
    case (Some target)
    then have cap: "hasCapacity st target" and cand: "target \<in> set candidates"
      by (auto simp: find_Some_iff)
    from cand Cons.prems(3) have other: "target \<noteq> source"
      by blast
    from hasCapacity_known [OF cap] obtain tgt where tgt: "getSlot st target = Some tgt"
      by blast
    let ?st1 = "moveToken st source target tokenId"
    have w1: "wellFormed ?st1"
      by (rule wf_moveToken [OF Cons.prems(1) src listed tgt other])
    have stored: "getToken st tokenId \<noteq> None"
      by (rule wf_listed_stored [OF Cons.prems(1) src listed])
    have rem: "remainingTokens ?st1 source = removeAll tokenId (remainingTokens st source)"
      using Cons.prems(2) cap other stored by (rule remaining_moveToken)
    have sub: "set rest \<subseteq> set (remainingTokens ?st1 source)"
      using Cons.prems(4,5) by (auto simp: rem)
    have known: "getSlot ?st1 source \<noteq> None"
      using Cons.prems(2) by (simp add: moveToken_slot_known)
    obtain m u s where rest: "firstFitRedistribution source candidates rest ?st1 = (m, u, s)"
      by (cases "firstFitRedistribution source candidates rest ?st1")
    have "wellFormed s"
      using Cons.prems(3,5) by (intro Cons.IH [OF w1 known _ sub _ rest]) simp_all
    with Some Cons.prems(6) rest show ?thesis
      by simp
  qed
qed

lemma wf_close_slot:
  assumes wf: "wellFormed st"
  shows "wellFormed (updateSlot st k (\<lambda>s. s\<lparr>slot_status := CLOSED\<rparr>))"
proof (cases "getSlot st k")
  case None
  with wf show ?thesis
    by (simp add: updateSlot_def getSlot_def)
next
  case (Some s)
  have "wellFormed (mutateSlot st k (s\<lparr>slot_status := CLOSED\<rparr>))"
  proof (rule wf_replace_slot [OF wf Some])
    show "slotOk st k (s\<lparr>slot_status := CLOSED\<rparr>)"
      using wf_slot [OF wf Some] by (simp add: slotOk_def)
  qed simp_all
  with Some show ?thesis
    by (simp add: updateSlot_eq)
qed

lemma wf_redistributePatientsFromSlot:
  assumes wf: "wellFormed st"
  shows "wellFormed (storeAfter st (redistributePatientsFromSlot st slotId))"
proof (cases "getSlot st slotId")
  case None
  with wf show ?thesis
    by (simp add: redistributePatientsFromSlot_def storeAfter_def)
next
  case (Some slot)
  let ?ts = "allocatedTokens slot @ waitlist slot"
  let ?others = "filter (\<lambda>s. slot_id s \<noteq> slotId \<and> slot_status s \<noteq> CLOSED)
                   (getSlotsByDoctor st (slot_doctorId slot))"
  let ?r = "\<lparr>redistributed = 0, failed = 0, details = []\<rparr>"
  have known: "getSlot st slotId \<noteq> None"
    using Some by simp
  have stored: "\<forall>i\<in>set ?ts. getToken st i \<noteq> None"
    using wf_listed_stored [OF wf Some] by blast
  have others: "\<forall>s\<in>set ?others. slot_id s \<noteq> slotId"
    by simp
  from redistributeTokens_refines [OF known stored others, of slot ?r]
  obtain st' r' moved unmoved where
    run: "redistributeTokens slotId slot ?others ?ts (st, ?r) = Inr (st', r')"
    and fit: "firstFitRedistribution slotId (map slot_id ?others) ?ts st = (moved, unmoved, st')"
    by blast
  have dist: "distinct ?ts"
    using wf_slot [OF wf Some] by (simp add: slotOk_def)
  have "wellFormed st'"
  proof (rule wf_firstFitRedistribution [OF wf known _ _ dist fit])
    show "\<forall>c\<in>set (map slot_id ?others). c \<noteq> slotId"
      by auto
    show "set ?ts \<subseteq> set (remainingTokens st slotId)"
      using Some by (simp add: remainingTokens_def)
  qed
  then have "wellFormed (updateSlot st' slotId (\<lambda>s. s\<lparr>slot_status := CLOSED\<rparr>))"
    by (rule wf_close_slot)
  with Some run show ?thesis
    by (simp add: redistributePatientsFromSlot_def storeAfter_def Let_def)
qed

lemma wf_close_slots:
  "wellFormed st \<Longrightarrow>
     wellFormed (fold (\<lambda>s acc. updateSlot acc (slot_id s) (\<lambda>x. x\<lparr>slot_status := CLOSED\<rparr>)) ss st)"
  by (induction ss arbitrary: st) (simp_all add: wf_close_slot)

lemma wf_handleDoctorUnavailable:
  assumes wf: "wellFormed st"
  shows "wellFormed (storeAfter st (handleDoctorUnavailable st doctorId))"
  using wf wf_close_slots [OF wf, of "getSlotsByDoctor st doctorId"]
  by (simp add: handleDoctorUnavailable_def storeAfter_def Let_def split: option.splits)

subsection \<open>Every call of the engine\<close>

lemma wf_applyOperation:
  assumes wf: "wellFormed st" and fresh: "usesFreshId st operation"
  shows "wellFormed (applyOperation st operation)"
proof (cases operation)
  case (Allocate newId now name ptype doctorId preferredSlotId)
  with fresh have "getToken st newId = None"
    by simp
  from wf_allocateToken [OF wf this, of now name ptype doctorId preferredSlotId] Allocate
  show ?thesis
    by (auto simp: storeAfter_def)
next
  case (Cancel tokenId now)
  with wf_cancelToken [OF wf, of tokenId now] show ?thesis by simp
next
  case (NoShow tokenId now)
  with wf_markNoShow [OF wf, of tokenId now] show ?thesis by simp
next
  case (Complete tokenId)
  with wf_completeToken [OF wf, of tokenId] show ?thesis by simp
next
  case (Redistribute slotId)
  with wf_redistributePatientsFromSlot [OF wf, of slotId] show ?thesis by simp
next
  case (DoctorUnavailable doctorId)
  with wf_handleDoctorUnavailable [OF wf, of doctorId] show ?thesis by simp
qed

lemma wf_runOperations:
  "wellFormed st \<Longrightarrow> useFreshIds st ops \<Longrightarrow> wellFormed (runOperations st ops)"
  unfolding runOperations_def
  by (induction ops arbitrary: st) (simp_all add: wf_applyOperation)

lemma wf_emptyStore: "wellFormed emptyStore"
  by (simp add: wellFormed_def emptyStore_def getSlot_def getToken_def)

lemma wf_addDoctor: "wellFormed st \<Longrightarrow> wellFormed (addDoctor st d)"
proof -
  have "getSlot (addDoctor st d) = getSlot st" "getToken (addDoctor st d) = getToken st"
    by (rule ext, simp add: addDoctor_def getSlot_def getToken_def)+
  then show "wellFormed st \<Longrightarrow> wellFormed (addDoctor st d)"
    by (simp only: wellFormed_def slotOk_def tokenOk_def)
qed

lemma wf_addSlot:
  assumes wf: "wellFormed st" and new: "getSlot st k = None" and named: "k \<noteq> []"
  shows "wellFormed (addSlot st (newSlot k doctorId start finish cap))"
proof -
  let ?s = "newSlot k doctorId start finish cap"
  have st: "addSlot st ?s = mutateSlot st k ?s"
    by (simp add: addSlot_def mutateSlot_def newSlot_def)
  have empty: "allocatedTokens ?s = []" "waitlist ?s = []" "slot_id ?s = k" "currentLoad ?s = 0"
    by (simp_all add: newSlot_def)
  have "wellFormed (mutateSlot st k ?s)"
  proof (rule wellFormedI)
    fix k' s
    assume "getSlot (mutateSlot st k ?s) k' = Some s"
    then show "slotOk (mutateSlot st k ?s) k' s"
      using wf_slot [OF wf, of k' s] named empty
      by (auto simp: slotOk_def waitlistSorted_def List.map_filter_simps split: if_splits)
  next
    fix i t
    assume tok: "getToken (mutateSlot st k ?s) i = Some t"
    then have ok: "tokenOk st i t"
      using wf_token [OF wf] by simp
    show "tokenOk (mutateSlot st k ?s) i t"
    proof (rule tokenOkI)
      show "token_id t = i"
        using ok by (rule tokenOk_id)
    next
      assume "token_status t = ALLOCATED"
      from tokenOk_seated [OF ok this] obtain sid s where
        seated: "token_slotId t = Some sid" "getSlot st sid = Some s" "i \<in> set (allocatedTokens s)"
        by blast
      with new have "sid \<noteq> k"
        by auto
      with seated show "\<exists>sid s. token_slotId t = Some sid
          \<and> getSlot (mutateSlot st k ?s) sid = Some s \<and> i \<in> set (allocatedTokens s)"
        by simp
    qed
  next
    fix k1 k2 s1 s2 i
    assume "k1 \<noteq> k2" "getSlot (mutateSlot st k ?s) k1 = Some s1"
      "getSlot (mutateSlot st k ?s) k2 = Some s2" "i \<in> set (allocatedTokens s1 @ waitlist s1)"
    then show "i \<notin> set (allocatedTokens s2 @ waitlist s2)"
      using wf_disjoint [OF wf, of k1 k2 s1 s2 i] empty
      by (auto split: if_splits)
  qed
  then show ?thesis
    by (simp only: st)
qed

lemma wf_oneSlotStore: "wellFormed (oneSlotStore cap)"
  unfolding oneSlotStore_def
  by (intro wf_addSlot wf_addDoctor wf_emptyStore)
     (simp_all add: getSlot_def addDoctor_def emptyStore_def)

lemma wf_twoSlotStore: "wellFormed (twoSlotStore cap1 cap2)"
  unfolding twoSlotStore_def
  by (intro wf_addSlot wf_addDoctor wf_emptyStore)
     (simp_all add: getSlot_def addSlot_def addDoctor_def emptyStore_def newSlot_def)

text \<open>In a consistent store the tokens a slot lists are stored, each listed once.\<close>

lemma wf_listed_once:
  assumes "wellFormed st" and "getSlot st k = Some s"
  shows "list_all (\<lambda>i. getToken st i \<noteq> None) (allocatedTokens s @ waitlist s)
       \<and> distinct (allocatedTokens s @ waitlist s)"
  using wf_slot [OF assms] by (simp add: slotOk_def list_all_iff)

end
